theory Spec2Isabelle
  imports Main "HOL-Library.AList"
begin

section \<open>Data model\<close>

text \<open>
  The package \<open>regexp_named\<close> couples a compiled \<open>regexp.Regexp\<close> with a table from
  group names to group indices. Go strings and byte slices are sequences of bytes: a
  \<open>string\<close> here is a \<open>char list\<close> and every \<open>char\<close> is one byte, so a pattern
  containing a non-ASCII character is the list of the bytes of its UTF-8 encoding.

  A Go function ends in one of three ways: it returns a value, it returns an \<open>error\<close>
  (built by \<open>errors.New\<close> from a message, or handed over by the \<open>regexp\<close> package), or it
  panics at run time (an index or a slice bound out of range). The last two are the two
  constructors of \<open>error\<close>; results are sums with the failure on the left.
\<close>

datatype error =
    Error string    \<comment> \<open>an \<open>error\<close> value, identified by its message\<close>
  | Panic string    \<comment> \<open>a run-time panic, which no caller of the package recovers\<close>

definition errTrailingBackslash :: error where
  "errTrailingBackslash =
     Error ''error parsing named regexp: trailing backslash at end of expression''"

definition errIncorrectRune :: error where
  "errIncorrectRune = Error ''error parsing named regexp: incorrect rune after backslash''"

definition errDuplicateGroup :: error where
  "errDuplicateGroup = Error ''error parsing named regexp: duplicate named group''"

definition panicSliceBounds :: error where
  "panicSliceBounds = Panic ''runtime error: slice bounds out of range''"

definition panicIndex :: error where
  "panicIndex = Panic ''runtime error: index out of range''"

text \<open>The backslash, which cannot be written inside a string literal.\<close>

abbreviation bslash :: char where
  "bslash \<equiv> CHR 0x5C"

subsection \<open>Runes\<close>

text \<open>
  A rune is a code point. \<open>utf8.RuneError\<close> and \<open>unicode.ReplacementChar\<close> are both
  U+FFFD, whose UTF-8 encoding is the three bytes EF BF BD; \<open>UnnamedCapture\<close> is the
  string made of that one character.
\<close>

definition RuneError :: nat where
  "RuneError = 0xFFFD"

definition UnnamedCapture :: string where
  "UnnamedCapture = [CHR 0xEF, CHR 0xBF, CHR 0xBD]"

text \<open>
  \<open>utf8.DecodeRune\<close> of Go's standard library, which the scanner calls to read one
  character: it returns the rune at the front of the bytes and the number of bytes of its
  encoding; \<open>(RuneError, 0)\<close> on no bytes and \<open>(RuneError, 1)\<close> on an encoding
  that is not valid UTF-8 (a stray continuation byte, a truncated or overlong sequence, a
  surrogate, a value above U+10FFFF). The second byte of a sequence is checked against a
  range \<open>lo..hi\<close> that depends on the first byte, the later ones against 80..BF.
\<close>

definition DecodeRune :: "string \<Rightarrow> nat \<times> nat" where
  "DecodeRune p =
     (case p of
        [] \<Rightarrow> (RuneError, 0)
      | c0 # _ \<Rightarrow>
          let p0 = (of_char c0 :: nat) in
          if p0 < 0x80 then (p0, 1)
          else if p0 < 0xC2 \<or> 0xF4 < p0 then (RuneError, 1)
          else
            let sz = (if p0 < 0xE0 then 2 else if p0 < 0xF0 then 3 else (4::nat));
                lo = (if p0 = 0xE0 then 0xA0 else if p0 = 0xF0 then 0x90 else (0x80::nat));
                hi = (if p0 = 0xED then 0x9F else if p0 = 0xF4 then 0x8F else (0xBF::nat))
            in
            if length p < sz then (RuneError, 1)
            else
              let b1 = (of_char (p ! 1) :: nat) in
              if b1 < lo \<or> hi < b1 then (RuneError, 1)
              else if sz \<le> 2 then ((p0 mod 0x20) * 0x40 + b1 mod 0x40, 2)
              else
                let b2 = (of_char (p ! 2) :: nat) in
                if b2 < 0x80 \<or> 0xBF < b2 then (RuneError, 1)
                else if sz \<le> 3 then
                  ((p0 mod 0x10) * 0x1000 + (b1 mod 0x40) * 0x40 + b2 mod 0x40, 3)
                else
                  let b3 = (of_char (p ! 3) :: nat) in
                  if b3 < 0x80 \<or> 0xBF < b3 then (RuneError, 1)
                  else ((p0 mod 0x08) * 0x40000 + (b1 mod 0x40) * 0x1000
                          + (b2 mod 0x40) * 0x40 + b3 mod 0x40, 4))"

subsection \<open>The two helper patterns of the scanner\<close>

text \<open>
  \<open>reNamedMatch\<close> is the pattern anchored at the start of the text that reads a
  question mark, \<open>P\<close>, an opening angle bracket, a lazy capture of any characters,
  and a closing angle bracket. The text must start with \<^verbatim>\<open>?P<\<close>, and the lazy
  capture stops at the first \<^verbatim>\<open>>\<close>; the dot matches every character but the
  newline, so there is no match when a newline comes before that bracket.
  \<open>FindSubmatchIndex\<close> returns the four offsets \<open>[0, e + 1, 3, e]\<close>, where
  \<open>e\<close> is the offset of that bracket, or nil. \<open>nameEnd cs i\<close> looks for the bracket
  in \<open>cs\<close>, whose first byte is at offset \<open>i\<close>.
\<close>

fun nameEnd :: "string \<Rightarrow> nat \<Rightarrow> nat option" where
  "nameEnd [] i = None"
| "nameEnd (c # cs) i =
     (if c = CHR ''>'' then Some i
      else if c = CHR 0x0A then None
      else nameEnd cs (Suc i))"

definition reNamedMatch :: "string \<Rightarrow> nat list option" where
  "reNamedMatch input =
     (if take 3 input = ''?P<'' then
        (case nameEnd (drop 3 input) 3 of
           None \<Rightarrow> None
         | Some e \<Rightarrow> Some [0, e + 1, 3, e])
      else None)"

text \<open>
  \<open>reNoCaptureMatch\<close> is the pattern for a question mark and a colon at the start
  of the text: \<open>FindSubmatchIndex\<close> returns
  \<open>[0, 2]\<close> when the text starts with \<^verbatim>\<open>?:\<close>, and nil otherwise.
\<close>

definition reNoCaptureMatch :: "string \<Rightarrow> nat list option" where
  "reNoCaptureMatch input = (if take 2 input = ''?:'' then Some [0, 2] else None)"

text \<open>
  The slice expressions \<open>input[lo:]\<close> and \<open>input[lo:hi]\<close>: they panic when the bounds
  are not ordered within the length.
\<close>

definition sliceFrom :: "'a list \<Rightarrow> nat \<Rightarrow> error + 'a list" where
  "sliceFrom xs lo = (if lo \<le> length xs then Inr (drop lo xs) else Inl panicSliceBounds)"

definition sliceRange :: "'a list \<Rightarrow> nat \<Rightarrow> nat \<Rightarrow> error + 'a list" where
  "sliceRange xs lo hi =
     (if lo \<le> hi \<and> hi \<le> length xs then Inr (take (hi - lo) (drop lo xs))
      else Inl panicSliceBounds)"

section \<open>The scanner\<close>

text \<open>
  \<open>groupOpen\<close> is the body of the case \<^verbatim>\<open>'('\<close> of \<open>parseBytes\<close> up to the
  recursive call: from the bytes after the parenthesis it gives \<open>groupName\<close> (no name
  for a group that does not capture, \<open>UnnamedCapture\<close> for a capture without a name) and
  the bytes the scan goes on with. The named branch skips to \<open>m[3] + 1\<close>, behind the
  \<^verbatim>\<open>>\<close>; the branch of \<^verbatim>\<open>?:\<close> skips to \<open>m[1] + 1\<close>, which is offset 3.
\<close>

definition groupOpen :: "string \<Rightarrow> error + (string list \<times> string)" where
  "groupOpen input =
     (case reNamedMatch input of
        Some m \<Rightarrow>
          (case sliceRange input (m ! 2) (m ! 3) of
             Inl e \<Rightarrow> Inl e
           | Inr name \<Rightarrow>
               (case sliceFrom input (m ! 3 + 1) of
                  Inl e \<Rightarrow> Inl e
                | Inr input' \<Rightarrow> Inr ([name], input')))
      | None \<Rightarrow>
          (case reNoCaptureMatch input of
             Some m \<Rightarrow>
               (case sliceFrom input (m ! 1 + 1) of
                  Inl e \<Rightarrow> Inl e
                | Inr input' \<Rightarrow> Inr ([], input'))
           | None \<Rightarrow> Inr ([UnnamedCapture], input)))"

lemma DecodeRune_size_pos: "p \<noteq> [] \<Longrightarrow> 0 < snd (DecodeRune p)"
  by (cases p) (simp_all add: DecodeRune_def Let_def)

lemma DecodeRune_shorter:
  "input \<noteq> [] \<Longrightarrow> DecodeRune input = (r, n) \<Longrightarrow> length (drop n input) < length input"
  using DecodeRune_size_pos [of input] by (cases input) auto

lemma groupOpen_length:
  "groupOpen input = Inr (g, input') \<Longrightarrow> length input' \<le> length input"
  by (auto simp: groupOpen_def sliceFrom_def sliceRange_def
           split: option.splits sum.splits if_splits)

function parseBytes :: "string \<Rightarrow> error + string list" where
  "parseBytes input =
     (if length input = 0 then Inr []
      else
        (case DecodeRune input of
           (nextrun, runlen) \<Rightarrow>
             let input1 = drop runlen input in
             if nextrun = 0x5C then
               (if length input1 = 0 then Inl errTrailingBackslash
                else
                  (case DecodeRune input1 of
                     (nextrun2, runlen2) \<Rightarrow>
                       if nextrun2 \<noteq> RuneError then parseBytes (drop runlen2 input1)
                       else Inl errIncorrectRune))
             else if nextrun = 0x28 then
               (case groupOpen input1 of
                  Inl e \<Rightarrow> Inl e
                | Inr (groupName, input2) \<Rightarrow>
                    (case parseBytes input2 of
                       Inr recursiveResult \<Rightarrow> Inr (groupName @ recursiveResult)
                     | Inl err \<Rightarrow> Inl err))
             else parseBytes input1))"
  by pat_completeness auto
termination
proof (relation "measure length")
  show "wf (measure length)" by simp
next
  fix input :: string and x y xa xb ya
  assume "length input \<noteq> 0" "(x, y) = DecodeRune input" "xa = drop y input"
    "length xa \<noteq> 0" "(xb, ya) = DecodeRune xa"
  then show "(drop ya xa, input) \<in> measure length"
    using DecodeRune_shorter [of input x y] by auto
next
  fix input :: string and x y xa b xb ya
  assume "length input \<noteq> 0" "(x, y) = DecodeRune input" "xa = drop y input"
    "groupOpen xa = Inr b" "(xb, ya) = b"
  then show "(ya, input) \<in> measure length"
    using DecodeRune_shorter [of input x y] groupOpen_length [of xa xb ya] by auto
next
  fix input :: string and x y xa
  assume "length input \<noteq> 0" "(x, y) = DecodeRune input" "xa = drop y input"
  then show "(xa, input) \<in> measure length"
    using DecodeRune_shorter [of input x y] by auto
qed

declare parseBytes.simps [simp del]

section \<open>The name table\<close>

text \<open>
  The table \<open>map[string]int\<close> is an association list from names to indices,
  looked up with \<open>map_of\<close> and written with \<open>AList.update\<close>, which replaces the entry
  of a key that is present and adds one for a key that is not, as the assignment
  \<open>r[name] = i + 1\<close> does. \<open>buildMap_loop i\<close> is the \<open>range\<close> loop of \<open>buildMap\<close>
  from position \<open>i\<close> on.
\<close>

type_synonym name_table = "(string \<times> nat) list"

fun buildMap_loop :: "nat \<Rightarrow> string list \<Rightarrow> name_table \<Rightarrow> error + name_table" where
  "buildMap_loop i [] r = Inr r"
| "buildMap_loop i (name # rest) r =
     (if name \<noteq> UnnamedCapture then
        (case map_of r name of
           Some _ \<Rightarrow> Inl errDuplicateGroup
         | None \<Rightarrow> buildMap_loop (i + 1) rest (AList.update name (i + 1) r))
      else buildMap_loop (i + 1) rest r)"

definition buildMap :: "string list \<Rightarrow> error + name_table" where
  "buildMap namedMatches = buildMap_loop 0 namedMatches []"

text \<open>
  The entries that the loop adds from position \<open>i\<close> on when no name comes twice: one
  for each name that is not \<open>UnnamedCapture\<close>, with its position counted from 1.
\<close>

fun entries :: "nat \<Rightarrow> string list \<Rightarrow> name_table" where
  "entries i [] = []"
| "entries i (name # rest) =
     (if name \<noteq> UnnamedCapture then (name, i + 1) # entries (i + 1) rest
      else entries (i + 1) rest)"

section \<open>The named pattern\<close>

text \<open>
  The matcher \<open>*regexp.Regexp\<close> belongs to Go's standard library. It is known here by
  the eight search operations the package calls. A slice that may be nil is an option:
  \<open>None\<close> is nil, which is what a search that finds nothing returns, and what
  \<open>FindSubmatch\<close> puts in the place of a group that took no part in the match. The
  sequence of matches of a \<open>FindAll\<close> operation is only ranged over, so it is a plain
  list, empty when nothing matches.
\<close>

record regexp_Regexp =
  FindSubmatch :: "string \<Rightarrow> string option list option"
  FindSubmatchIndex :: "string \<Rightarrow> int list option"
  FindStringSubmatch :: "string \<Rightarrow> string list option"
  FindStringSubmatchIndex :: "string \<Rightarrow> int list option"
  FindAllSubmatch :: "string \<Rightarrow> int \<Rightarrow> string option list option list"
  FindAllSubmatchIndex :: "string \<Rightarrow> int \<Rightarrow> int list option list"
  FindAllStringSubmatch :: "string \<Rightarrow> int \<Rightarrow> string list option list"
  FindAllStringSubmatchIndex :: "string \<Rightarrow> int \<Rightarrow> int list option list"

record RegexpNamed =
  namedMap :: name_table
  Regexp :: regexp_Regexp

text \<open>
  \<open>Compile\<close> takes \<open>regexp.Compile\<close> as its first argument. The matcher is compiled
  first; the scanner and the table builder run only on a pattern the matcher accepts.
\<close>

definition Compile :: "(string \<Rightarrow> error + regexp_Regexp) \<Rightarrow> string \<Rightarrow> error + RegexpNamed" where
  "Compile regexp_Compile re =
     (case regexp_Compile re of
        Inl err \<Rightarrow> Inl err
      | Inr compiledRe \<Rightarrow>
          (case parseBytes re of
             Inl err \<Rightarrow> Inl err
           | Inr parsed \<Rightarrow>
               (case buildMap parsed of
                  Inl err \<Rightarrow> Inl err
                | Inr map' \<Rightarrow> Inr \<lparr>namedMap = map', Regexp = compiledRe\<rparr>)))"

section \<open>Projection of matches\<close>

text \<open>
  \<open>getResult\<close> indexes the match and panics out of range. \<open>getResultIndex\<close> takes the
  two offsets of a group with a slice expression; the bound of a slice expression on a
  slice is its capacity, taken here to be its length.
\<close>

definition getResult :: "'t list \<Rightarrow> nat \<Rightarrow> error + 't" where
  "getResult match pos = (if pos < length match then Inr (match ! pos) else Inl panicIndex)"

definition getResultIndex :: "'t list \<Rightarrow> nat \<Rightarrow> error + 't list option" where
  "getResultIndex match pos =
     (case sliceRange match (pos * 2) (pos * 2 + 2) of
        Inl e \<Rightarrow> Inl e
      | Inr s \<Rightarrow> Inr (Some s))"

text \<open>
  \<open>mapRe\<close> returns the zero value of the result type and a nil map when there is no
  match; \<open>zero\<close> is that zero value. Otherwise it fills a new map by ranging over the
  table (\<open>mapRe_loop\<close>), and evaluates the result at position 0 last. The order in which
  Go ranges over a map is not fixed; the loop here follows the list.
\<close>

fun mapRe_loop ::
  "name_table \<Rightarrow> 't list \<Rightarrow> ('t list \<Rightarrow> nat \<Rightarrow> error + 's) \<Rightarrow> (string \<times> 's) list
     \<Rightarrow> error + (string \<times> 's) list" where
  "mapRe_loop [] submatches resultFunc rv = Inr rv"
| "mapRe_loop ((k, v) # rest) submatches resultFunc rv =
     (case resultFunc submatches v of
        Inl e \<Rightarrow> Inl e
      | Inr x \<Rightarrow> mapRe_loop rest submatches resultFunc (AList.update k x rv))"

definition mapRe ::
  "'s \<Rightarrow> RegexpNamed \<Rightarrow> 't list option \<Rightarrow> ('t list \<Rightarrow> nat \<Rightarrow> error + 's)
     \<Rightarrow> error + ('s \<times> (string \<times> 's) list option)" where
  "mapRe zero re submatches resultFunc =
     (case submatches of
        None \<Rightarrow> Inr (zero, None)
      | Some sub \<Rightarrow>
          (case mapRe_loop (namedMap re) sub resultFunc [] of
             Inl e \<Rightarrow> Inl e
           | Inr rv \<Rightarrow>
               (case resultFunc sub 0 of
                  Inl e \<Rightarrow> Inl e
                | Inr base \<Rightarrow> Inr (base, Some rv))))"

fun mapReAll_loop ::
  "'s \<Rightarrow> RegexpNamed \<Rightarrow> 't list option list \<Rightarrow> ('t list \<Rightarrow> nat \<Rightarrow> error + 's)
     \<Rightarrow> 's list \<Rightarrow> (string \<times> 's) list option list
     \<Rightarrow> error + ('s list \<times> (string \<times> 's) list option list)" where
  "mapReAll_loop zero re [] composeFunc rv0 rv = Inr (rv0, rv)"
| "mapReAll_loop zero re (submatches # rest) composeFunc rv0 rv =
     (case mapRe zero re submatches composeFunc of
        Inl e \<Rightarrow> Inl e
      | Inr (base, namedSubmatches) \<Rightarrow>
          mapReAll_loop zero re rest composeFunc (rv0 @ [base]) (rv @ [namedSubmatches]))"

definition mapReAll ::
  "'s \<Rightarrow> RegexpNamed \<Rightarrow> 't list option list \<Rightarrow> ('t list \<Rightarrow> nat \<Rightarrow> error + 's)
     \<Rightarrow> error + ('s list \<times> (string \<times> 's) list option list)" where
  "mapReAll zero re matches composeFunc = mapReAll_loop zero re matches composeFunc [] []"

text \<open>
  The eight operations. The zero value of \<open>string\<close> is the empty string, that of
  \<open>[]byte\<close> and \<open>[]int\<close> is nil.
\<close>

definition FindNamed :: "RegexpNamed \<Rightarrow> string \<Rightarrow> error + (string option \<times> (string \<times> string option) list option)" where
  "FindNamed re s = mapRe None re (FindSubmatch (Regexp re) s) getResult"

definition FindIndexNamed :: "RegexpNamed \<Rightarrow> string \<Rightarrow> error + (int list option \<times> (string \<times> int list option) list option)" where
  "FindIndexNamed re s = mapRe None re (FindSubmatchIndex (Regexp re) s) getResultIndex"

definition FindStringNamed :: "RegexpNamed \<Rightarrow> string \<Rightarrow> error + (string \<times> (string \<times> string) list option)" where
  "FindStringNamed re s = mapRe [] re (FindStringSubmatch (Regexp re) s) getResult"

definition FindStringIndexNamed :: "RegexpNamed \<Rightarrow> string \<Rightarrow> error + (int list option \<times> (string \<times> int list option) list option)" where
  "FindStringIndexNamed re s =
     mapRe None re (FindStringSubmatchIndex (Regexp re) s) getResultIndex"

definition FindAllNamed :: "RegexpNamed \<Rightarrow> string \<Rightarrow> int \<Rightarrow> error + (string option list \<times> (string \<times> string option) list option list)" where
  "FindAllNamed re b n = mapReAll None re (FindAllSubmatch (Regexp re) b n) getResult"

definition FindAllIndexNamed :: "RegexpNamed \<Rightarrow> string \<Rightarrow> int \<Rightarrow> error + (int list option list \<times> (string \<times> int list option) list option list)" where
  "FindAllIndexNamed re b n =
     mapReAll None re (FindAllSubmatchIndex (Regexp re) b n) getResultIndex"

definition FindAllStringNamed :: "RegexpNamed \<Rightarrow> string \<Rightarrow> int \<Rightarrow> error + (string list \<times> (string \<times> string) list option list)" where
  "FindAllStringNamed re s n =
     mapReAll [] re (FindAllStringSubmatch (Regexp re) s n) getResult"

definition FindAllStringIndexNamed :: "RegexpNamed \<Rightarrow> string \<Rightarrow> int \<Rightarrow> error + (int list option list \<times> (string \<times> int list option) list option list)" where
  "FindAllStringIndexNamed re s n =
     mapReAll None re (FindAllStringSubmatchIndex (Regexp re) s n) getResultIndex"

section \<open>Matchers for the examples\<close>

text \<open>A matcher that finds nothing, whatever the subject; the examples override it
  at the subjects they search.\<close>

definition noMatcher :: regexp_Regexp where
  "noMatcher =
     \<lparr>FindSubmatch = (\<lambda>s. None), FindSubmatchIndex = (\<lambda>s. None),
      FindStringSubmatch = (\<lambda>s. None), FindStringSubmatchIndex = (\<lambda>s. None),
      FindAllSubmatch = (\<lambda>s n. []), FindAllSubmatchIndex = (\<lambda>s n. []),
      FindAllStringSubmatch = (\<lambda>s n. []), FindAllStringSubmatchIndex = (\<lambda>s n. [])\<rparr>"

section \<open>Properties of the scanner\<close>

text \<open>
  One step of the scan on each kind of first byte. With them the simplifier runs the
  scanner on a pattern given byte by byte.
\<close>

lemma parseBytes_Nil: "parseBytes [] = Inr []"
  by (subst parseBytes.simps) simp

lemma DecodeRune_ascii: "(of_char c :: nat) < 0x80 \<Longrightarrow> DecodeRune (c # cs) = (of_char c, 1)"
  by (simp add: DecodeRune_def)

lemma of_char_eq_iff_nat: "(of_char c :: nat) = of_char d \<longleftrightarrow> c = d"
  by (metis char_of_char)

lemma parseBytes_other:
  assumes "(of_char c :: nat) < 0x80" "c \<noteq> bslash" "c \<noteq> CHR ''(''"
  shows "parseBytes (c # cs) = parseBytes cs"
proof -
  have "(of_char c :: nat) \<noteq> of_char bslash" "(of_char c :: nat) \<noteq> of_char CHR ''(''"
    using assms by (simp_all only: of_char_eq_iff_nat not_False_eq_True)
  then have "(of_char c :: nat) \<noteq> 0x5C" "(of_char c :: nat) \<noteq> 0x28" by simp_all
  then show ?thesis
    using assms by (subst parseBytes.simps) (simp add: DecodeRune_ascii)
qed

lemma parseBytes_bslash_end: "parseBytes [bslash] = Inl errTrailingBackslash"
  by (subst parseBytes.simps) (simp add: DecodeRune_ascii)

lemma parseBytes_bslash_ascii:
  assumes "(of_char c :: nat) < 0x80"
  shows "parseBytes (bslash # c # cs) = parseBytes cs"
proof -
  have "(of_char c :: nat) \<noteq> RuneError" using assms by (simp add: RuneError_def)
  then show ?thesis
    using assms by (subst parseBytes.simps) (simp add: DecodeRune_ascii)
qed

lemma parseBytes_open:
  "parseBytes (CHR ''('' # cs) =
     (case groupOpen cs of
        Inl e \<Rightarrow> Inl e
      | Inr (groupName, input2) \<Rightarrow>
          (case parseBytes input2 of
             Inr recursiveResult \<Rightarrow> Inr (groupName @ recursiveResult)
           | Inl err \<Rightarrow> Inl err))"
  by (subst parseBytes.simps) (simp add: DecodeRune_ascii)

lemmas parseBytes_steps =
  parseBytes_Nil parseBytes_other parseBytes_bslash_end parseBytes_bslash_ascii parseBytes_open
  groupOpen_def reNamedMatch_def reNoCaptureMatch_def sliceFrom_def sliceRange_def

text \<open>
  A pattern that ends right behind the marker of a group that does not capture makes the
  scanner panic, since the skip behind the marker goes one byte too far. The matcher
  accepts the second pattern, a quoted literal.
\<close>

lemma scanner_panics_behind_short_marker:
  "parseBytes ''(?:'' = Inl panicSliceBounds"
  "parseBytes ([bslash, CHR ''Q''] @ ''(?:'') = Inl panicSliceBounds"
  by (simp_all add: parseBytes_steps)

section \<open>Properties of the table builder\<close>

lemma update_absent: "map_of al k = None \<Longrightarrow> AList.update k v al = al @ [(k, v)]"
  by (induction al) (auto split: if_splits)

lemma map_fst_entries: "map fst (entries i ds) = filter (\<lambda>n. n \<noteq> UnnamedCapture) ds"
  by (induction ds arbitrary: i) auto

lemma buildMap_loop_entries:
  "buildMap_loop i ds r =
     (if distinct (filter (\<lambda>n. n \<noteq> UnnamedCapture) ds)
         \<and> (\<forall>n \<in> set ds. n \<noteq> UnnamedCapture \<longrightarrow> map_of r n = None)
      then Inr (r @ entries i ds) else Inl errDuplicateGroup)"
proof (induction ds arbitrary: i r)
  case Nil
  show ?case by simp
next
  case (Cons name rest)
  show ?case
  proof (cases "name = UnnamedCapture")
    case True
    then show ?thesis using Cons.IH [of "i + 1" r] by auto
  next
    case False
    show ?thesis
    proof (cases "map_of r name")
      case (Some v)
      then show ?thesis using False by auto
    next
      case None
      have "map_of (r @ [(name, i + 1)]) n = None \<longleftrightarrow> map_of r n = None \<and> n \<noteq> name" for n
        by (auto simp: map_add_def split: option.splits)
      then show ?thesis
        using False None Cons.IH [of "i + 1" "r @ [(name, i + 1)]"]
        by (auto simp: update_absent)
    qed
  qed
qed

lemma buildMap_entries:
  "buildMap ds =
     (if distinct (filter (\<lambda>n. n \<noteq> UnnamedCapture) ds) then Inr (entries 0 ds)
      else Inl errDuplicateGroup)"
  by (simp add: buildMap_def buildMap_loop_entries)

lemma entries_nth:
  "(n, v) \<in> set (entries i ds) \<longleftrightarrow> (\<exists>j < length ds. ds ! j = n \<and> n \<noteq> UnnamedCapture \<and> v = i + j + 1)"
proof (induction ds arbitrary: i)
  case Nil
  show ?case by simp
next
  case (Cons d ds)
  have "(\<exists>j < length (d # ds). (d # ds) ! j = n \<and> n \<noteq> UnnamedCapture \<and> v = i + j + 1)
      \<longleftrightarrow> (d = n \<and> n \<noteq> UnnamedCapture \<and> v = i + 1)
          \<or> (\<exists>j < length ds. ds ! j = n \<and> n \<noteq> UnnamedCapture \<and> v = (i + 1) + j + 1)"
    (is "?L \<longleftrightarrow> ?A \<or> ?B")
  proof
    assume ?L
    then obtain j where j: "j < length (d # ds)" "(d # ds) ! j = n" "n \<noteq> UnnamedCapture" "v = i + j + 1"
      by blast
    show "?A \<or> ?B"
    proof (cases j)
      case 0
      then show ?thesis using j by simp
    next
      case (Suc j')
      then have "j' < length ds \<and> ds ! j' = n \<and> n \<noteq> UnnamedCapture \<and> v = (i + 1) + j' + 1"
        using j by simp
      then show ?thesis by blast
    qed
  next
    assume "?A \<or> ?B"
    then show ?L
    proof
      assume ?A
      then have "0 < length (d # ds) \<and> (d # ds) ! 0 = n \<and> n \<noteq> UnnamedCapture \<and> v = i + 0 + 1"
        by simp
      then show ?L by blast
    next
      assume ?B
      then obtain j where "j < length ds" "ds ! j = n" "n \<noteq> UnnamedCapture" "v = (i + 1) + j + 1"
        by blast
      then have "Suc j < length (d # ds) \<and> (d # ds) ! Suc j = n \<and> n \<noteq> UnnamedCapture \<and> v = i + Suc j + 1"
        by simp
      then show ?L by blast
    qed
  qed
  then show ?case using Cons.IH [of "i + 1"] by auto
qed

lemma dup_not_distinct_filter:
  assumes "i < j" "j < length xs" "xs ! i = xs ! j" "P (xs ! j)"
  shows "\<not> distinct (filter P xs)"
proof -
  have i: "i < length xs" using assms by simp
  have split: "xs = take i xs @ xs ! i # drop (Suc i) xs"
    using i by (simp add: id_take_nth_drop)
  have "xs ! j \<in> set (drop (Suc i) xs)"
  proof -
    have "drop (Suc i) xs ! (j - Suc i) = xs ! j" using assms by simp
    moreover have "j - Suc i < length (drop (Suc i) xs)" using assms by simp
    ultimately show ?thesis by (metis nth_mem)
  qed
  then have "xs ! i \<in> set (filter P (drop (Suc i) xs))" using assms by simp
  then have "\<not> distinct (filter P (take i xs @ xs ! i # drop (Suc i) xs))"
    using assms by simp
  then show ?thesis using split by simp
qed

lemma not_distinct_filter_dup:
  "\<not> distinct (filter P xs) \<Longrightarrow> \<exists>i j. i < j \<and> j < length xs \<and> xs ! i = xs ! j \<and> P (xs ! j)"
proof (induction xs)
  case Nil
  then show ?case by simp
next
  case (Cons x xs)
  show ?case
  proof (cases "\<not> distinct (filter P xs)")
    case True
    then obtain i j where "i < j" "j < length xs" "xs ! i = xs ! j" "P (xs ! j)"
      using Cons.IH by blast
    then have "Suc i < Suc j \<and> Suc j < length (x # xs) \<and> (x # xs) ! Suc i = (x # xs) ! Suc j
        \<and> P ((x # xs) ! Suc j)"
      by simp
    then show ?thesis by blast
  next
    case False
    then have "P x" "x \<in> set xs" using Cons.prems by (auto split: if_splits)
    then obtain j where "j < length xs" "xs ! j = x" by (auto simp: in_set_conv_nth)
    then have "0 < Suc j \<and> Suc j < length (x # xs) \<and> (x # xs) ! 0 = (x # xs) ! Suc j
        \<and> P ((x # xs) ! Suc j)"
      using \<open>P x\<close> by simp
    then show ?thesis by blast
  qed
qed

lemma example_duplicate_scan:
  "parseBytes (''(?P<name>'' @ bslash # ''w+) (?P<name>'' @ bslash # ''d+)'') = Inr [''name'', ''name'']"
  by (simp add: parseBytes_steps UnnamedCapture_def)

section \<open>Duplicate names\<close>

text \<open>
  C4, as the code has it. A name other than \<open>UnnamedCapture\<close> that stands at two
  positions \<open>i < j\<close> of the descriptor sequence makes \<open>buildMap\<close> fail with the
  error "duplicate named group", and so does every sequence that agrees with this one up
  to position \<open>j\<close>: nothing behind the recurrence is looked at. \<open>buildMap\<close> has no
  other failure, and it fails only on such a sequence. The error is one fixed message: it
  does not carry the name. Compiling the pattern with the two groups called \<open>name\<close>
  fails with that error once the matcher has accepted the pattern.
\<close>

theorem buildMap_duplicate_name:
  "(i < j \<and> j < length ds \<and> ds ! i = ds ! j \<and> ds ! j \<noteq> UnnamedCapture \<longrightarrow>
      buildMap ds = Inl errDuplicateGroup
      \<and> buildMap (take (Suc j) ds @ rest) = Inl errDuplicateGroup)
   \<and> (buildMap ds = Inl e \<longrightarrow>
        e = errDuplicateGroup
        \<and> (\<exists>i j. i < j \<and> j < length ds \<and> ds ! i = ds ! j \<and> ds ! j \<noteq> UnnamedCapture))
   \<and> Compile regexp_Compile (''(?P<name>'' @ bslash # ''w+) (?P<name>'' @ bslash # ''d+)'') =
       (case regexp_Compile (''(?P<name>'' @ bslash # ''w+) (?P<name>'' @ bslash # ''d+)'') of
          Inl err \<Rightarrow> Inl err
        | Inr compiledRe \<Rightarrow> Inl errDuplicateGroup)"
proof (intro conjI impI)
  assume a: "i < j \<and> j < length ds \<and> ds ! i = ds ! j \<and> ds ! j \<noteq> UnnamedCapture"
  then show "buildMap ds = Inl errDuplicateGroup"
    using dup_not_distinct_filter [of i j ds "\<lambda>n. n \<noteq> UnnamedCapture"]
    by (simp add: buildMap_entries)
  have "i < j \<and> j < length (take (Suc j) ds @ rest)
      \<and> (take (Suc j) ds @ rest) ! i = (take (Suc j) ds @ rest) ! j
      \<and> (take (Suc j) ds @ rest) ! j \<noteq> UnnamedCapture"
    using a by (simp add: nth_append)
  then show "buildMap (take (Suc j) ds @ rest) = Inl errDuplicateGroup"
    using dup_not_distinct_filter [of i j "take (Suc j) ds @ rest" "\<lambda>n. n \<noteq> UnnamedCapture"]
    by (simp add: buildMap_entries)
next
  assume e: "buildMap ds = Inl e"
  then show "e = errDuplicateGroup"
    by (simp add: buildMap_entries split: if_splits)
  have "\<not> distinct (filter (\<lambda>n. n \<noteq> UnnamedCapture) ds)"
    using e by (simp add: buildMap_entries split: if_splits)
  then show "\<exists>i j. i < j \<and> j < length ds \<and> ds ! i = ds ! j \<and> ds ! j \<noteq> UnnamedCapture"
    by (rule not_distinct_filter_dup)
next
  have "buildMap [''name'', ''name''] = Inl errDuplicateGroup"
    by (simp add: buildMap_entries UnnamedCapture_def)
  then show "Compile regexp_Compile (''(?P<name>'' @ bslash # ''w+) (?P<name>'' @ bslash # ''d+)'') =
       (case regexp_Compile (''(?P<name>'' @ bslash # ''w+) (?P<name>'' @ bslash # ''d+)'') of
          Inl err \<Rightarrow> Inl err
        | Inr compiledRe \<Rightarrow> Inl errDuplicateGroup)"
    unfolding Compile_def example_duplicate_scan by (simp split: sum.splits)
qed

text \<open>The name \<open>a\<close> at positions 0 and 3, behind an unnamed group.\<close>

theorem buildMap_duplicate_name_witness:
  "buildMap [''a'', UnnamedCapture, ''b'', ''a'', ''c''] = Inl errDuplicateGroup
   \<and> buildMap ([''a'', UnnamedCapture, ''b'', ''a''] @ [''b'', ''b'']) = Inl errDuplicateGroup"
  using buildMap_duplicate_name [of 0 3 "[''a'', UnnamedCapture, ''b'', ''a'', ''c'']" "[''b'', ''b'']"]
  by (simp add: UnnamedCapture_def)

text \<open>
  The error for the duplicate \<open>name\<close> and the error for the duplicate \<open>age\<close> are
  the same value, so the error does not tell which name came twice.
\<close>

theorem duplicate_error_names_no_group:
  "buildMap [''name'', ''name''] =
     Inl (Error ''error parsing named regexp: duplicate named group'')
   \<and> buildMap [''age'', ''age''] = buildMap [''name'', ''name'']"
  by (simp add: buildMap_entries UnnamedCapture_def errDuplicateGroup_def)

section \<open>The replacement character as a name\<close>

text \<open>
  C10. A group whose name is the replacement character U+FFFD is scanned to the
  descriptor \<open>UnnamedCapture\<close>, which is that very string, so the table builder leaves
  it out: the table of such a pattern is empty, and two groups with that name raise no
  duplicate error, where two groups called \<open>n\<close> do.
\<close>

theorem replacement_char_name_is_unnamed:
  "parseBytes (''(?P<'' @ UnnamedCapture @ ''>a)'') = Inr [UnnamedCapture]
   \<and> buildMap [UnnamedCapture] = Inr []
   \<and> parseBytes (''(?P<'' @ UnnamedCapture @ ''>a)(?P<'' @ UnnamedCapture @ ''>b)'')
       = Inr [UnnamedCapture, UnnamedCapture]
   \<and> buildMap [UnnamedCapture, UnnamedCapture] = Inr []
   \<and> parseBytes ''(?P<n>a)(?P<n>b)'' = Inr [''n'', ''n'']
   \<and> buildMap [''n'', ''n''] = Inl errDuplicateGroup
   \<and> Compile regexp_Compile (''(?P<'' @ UnnamedCapture @ ''>a)(?P<'' @ UnnamedCapture @ ''>b)'') =
       (case regexp_Compile (''(?P<'' @ UnnamedCapture @ ''>a)(?P<'' @ UnnamedCapture @ ''>b)'') of
          Inl err \<Rightarrow> Inl err
        | Inr compiledRe \<Rightarrow> Inr \<lparr>namedMap = [], Regexp = compiledRe\<rparr>)"
proof -
  have 1: "parseBytes (''(?P<'' @ UnnamedCapture @ ''>a)'') = Inr [UnnamedCapture]"
    by (simp add: parseBytes_steps UnnamedCapture_def)
  have 2: "parseBytes (''(?P<'' @ UnnamedCapture @ ''>a)(?P<'' @ UnnamedCapture @ ''>b)'')
       = Inr [UnnamedCapture, UnnamedCapture]"
    by (simp add: parseBytes_steps UnnamedCapture_def)
  have 3: "parseBytes ''(?P<n>a)(?P<n>b)'' = Inr [''n'', ''n'']"
    by (simp add: parseBytes_steps UnnamedCapture_def)
  show ?thesis
    unfolding Compile_def 2 using 1 3
    by (simp add: buildMap_entries UnnamedCapture_def split: sum.splits)
qed

section \<open>Construction\<close>

lemma example_unbalanced_scan:
  "parseBytes (''(?P<name>'' @ bslash # ''w+) (?P<age>'' @ bslash # ''d+'') = Inr [''name'', ''age'']"
  by (simp add: parseBytes_steps)

text \<open>
  C3. \<open>Compile\<close> fails exactly when the matcher's compilation fails, or the scanner
  fails, or the table builder fails, and the error it returns is the error of the stage
  that failed (the matcher's when the matcher fails). It succeeds exactly when all stages
  succeed, and then holds the compiled matcher and the table. The scanner accepts the
  pattern with the unclosed group \<open>age\<close>, so on that pattern the failure is the one
  the matcher reports.
\<close>

theorem Compile_fails_iff_a_stage_fails:
  "((\<exists>err. Compile regexp_Compile re = Inl err) \<longleftrightarrow>
      (\<exists>err. regexp_Compile re = Inl err) \<or> (\<exists>err. parseBytes re = Inl err)
      \<or> (\<exists>parsed err. parseBytes re = Inr parsed \<and> buildMap parsed = Inl err))
   \<and> (regexp_Compile re = Inl err \<longrightarrow> Compile regexp_Compile re = Inl err)
   \<and> (regexp_Compile re = Inr compiledRe \<and> parseBytes re = Inl err
        \<longrightarrow> Compile regexp_Compile re = Inl err)
   \<and> (regexp_Compile re = Inr compiledRe \<and> parseBytes re = Inr parsed
        \<and> buildMap parsed = Inl err \<longrightarrow> Compile regexp_Compile re = Inl err)
   \<and> (Compile regexp_Compile re = Inr r \<longleftrightarrow>
        (\<exists>compiledRe parsed table. regexp_Compile re = Inr compiledRe
           \<and> parseBytes re = Inr parsed \<and> buildMap parsed = Inr table
           \<and> r = \<lparr>namedMap = table, Regexp = compiledRe\<rparr>))
   \<and> parseBytes (''(?P<name>'' @ bslash # ''w+) (?P<age>'' @ bslash # ''d+'')
        = Inr [''name'', ''age'']
   \<and> (regexp_Compile (''(?P<name>'' @ bslash # ''w+) (?P<age>'' @ bslash # ''d+'') = Inl err
        \<longrightarrow> Compile regexp_Compile (''(?P<name>'' @ bslash # ''w+) (?P<age>'' @ bslash # ''d+'')
              = Inl err)"
proof (intro conjI)
  show "(\<exists>err. Compile regexp_Compile re = Inl err) \<longleftrightarrow>
      (\<exists>err. regexp_Compile re = Inl err) \<or> (\<exists>err. parseBytes re = Inl err)
      \<or> (\<exists>parsed err. parseBytes re = Inr parsed \<and> buildMap parsed = Inl err)"
    by (cases "regexp_Compile re"; cases "parseBytes re")
       (auto simp: Compile_def split: sum.splits)
  show "Compile regexp_Compile re = Inr r \<longleftrightarrow>
        (\<exists>compiledRe parsed table. regexp_Compile re = Inr compiledRe
           \<and> parseBytes re = Inr parsed \<and> buildMap parsed = Inr table
           \<and> r = \<lparr>namedMap = table, Regexp = compiledRe\<rparr>)"
    by (cases "regexp_Compile re"; cases "parseBytes re")
       (auto simp: Compile_def split: sum.splits)
  show "parseBytes (''(?P<name>'' @ bslash # ''w+) (?P<age>'' @ bslash # ''d+'')
        = Inr [''name'', ''age'']"
    by (rule example_unbalanced_scan)
qed (simp_all add: Compile_def)

text \<open>
  A matcher that rejects the unclosed pattern; then a matcher that accepts everything, on
  a pattern with a trailing backslash, on one with a duplicate name, and on a good one.
\<close>

theorem Compile_fails_iff_a_stage_fails_witness:
  "Compile (\<lambda>p. Inl (Error ''error parsing regexp: missing closing )''))
      (''(?P<name>'' @ bslash # ''w+) (?P<age>'' @ bslash # ''d+'')
     = Inl (Error ''error parsing regexp: missing closing )'')
   \<and> Compile (\<lambda>p. Inr noMatcher) (''(?P<name>'' @ bslash # ''w+)'' @ [bslash])
       = Inl errTrailingBackslash
   \<and> Compile (\<lambda>p. Inr noMatcher) ''(?P<n>a)(?P<n>b)'' = Inl errDuplicateGroup
   \<and> Compile (\<lambda>p. Inr noMatcher) ''(?P<n>a)(b)'' = Inr \<lparr>namedMap = [(''n'', 1)], Regexp = noMatcher\<rparr>"
proof -
  have 1: "parseBytes (''(?P<name>'' @ bslash # ''w+)'' @ [bslash]) = Inl errTrailingBackslash"
    by (simp add: parseBytes_steps)
  have 2: "parseBytes ''(?P<n>a)(?P<n>b)'' = Inr [''n'', ''n'']"
    by (simp add: parseBytes_steps)
  have 3: "buildMap [''n'', ''n''] = Inl errDuplicateGroup"
    by (simp add: buildMap_entries UnnamedCapture_def)
  have 4: "parseBytes ''(?P<n>a)(b)'' = Inr [''n'', UnnamedCapture]"
    by (simp add: parseBytes_steps)
  have 5: "buildMap [''n'', UnnamedCapture] = Inr [(''n'', 1)]"
    by (simp add: buildMap_entries UnnamedCapture_def)
  show ?thesis
    using
      Compile_fails_iff_a_stage_fails [of "\<lambda>p. Inl (Error ''error parsing regexp: missing closing )'')"
        "''(?P<name>'' @ bslash # ''w+) (?P<age>'' @ bslash # ''d+''"
        "Error ''error parsing regexp: missing closing )''"]
      Compile_fails_iff_a_stage_fails [of "\<lambda>p. Inr noMatcher"
        "''(?P<name>'' @ bslash # ''w+)'' @ [bslash]" errTrailingBackslash noMatcher]
      Compile_fails_iff_a_stage_fails [of "\<lambda>p. Inr noMatcher"
        "''(?P<n>a)(?P<n>b)''" errDuplicateGroup noMatcher "[''n'', ''n'']"]
      Compile_fails_iff_a_stage_fails [of "\<lambda>p. Inr noMatcher"
        "''(?P<n>a)(b)''" _ _ _ "\<lparr>namedMap = [(''n'', 1)], Regexp = noMatcher\<rparr>"]
      1 2 3 4 5
    by simp
qed

section \<open>No match\<close>

text \<open>
  C7. When the matcher reports no match (a nil raw match), each of the four single-result
  operations returns the zero value of its base type (nil for a byte slice and for an
  offset slice, the empty string for a string) together with a nil map. When the matcher
  reports a match and the operation returns, the map is not nil, also when every value in
  it is empty: the two outcomes differ.
\<close>

theorem no_match_gives_nil_map:
  "(FindSubmatch (Regexp re) s = None \<longrightarrow> FindNamed re s = Inr (None, None))
   \<and> (FindSubmatchIndex (Regexp re) s = None \<longrightarrow> FindIndexNamed re s = Inr (None, None))
   \<and> (FindStringSubmatch (Regexp re) s = None \<longrightarrow> FindStringNamed re s = Inr ([], None))
   \<and> (FindStringSubmatchIndex (Regexp re) s = None
        \<longrightarrow> FindStringIndexNamed re s = Inr (None, None))
   \<and> (FindSubmatch (Regexp re) s \<noteq> None \<and> FindNamed re s = Inr (b1, m1) \<longrightarrow> m1 \<noteq> None)
   \<and> (FindSubmatchIndex (Regexp re) s \<noteq> None \<and> FindIndexNamed re s = Inr (b2, m2)
        \<longrightarrow> m2 \<noteq> None)
   \<and> (FindStringSubmatch (Regexp re) s \<noteq> None \<and> FindStringNamed re s = Inr (b3, m3)
        \<longrightarrow> m3 \<noteq> None)
   \<and> (FindStringSubmatchIndex (Regexp re) s \<noteq> None \<and> FindStringIndexNamed re s = Inr (b4, m4)
        \<longrightarrow> m4 \<noteq> None)"
  by (auto simp: FindNamed_def FindIndexNamed_def FindStringNamed_def FindStringIndexNamed_def
        mapRe_def split: sum.splits option.splits)

text \<open>
  A table with one name: no match on one side, and on the other a match of the empty
  string in which the group is empty, where the base is the zero value as well but the
  map is present.
\<close>

theorem no_match_gives_nil_map_witness:
  "FindNamed \<lparr>namedMap = [(''name'', 1)], Regexp = noMatcher\<rparr> ''bar'' = Inr (None, None)
   \<and> FindIndexNamed \<lparr>namedMap = [(''name'', 1)], Regexp = noMatcher\<rparr> ''bar'' = Inr (None, None)
   \<and> FindStringNamed \<lparr>namedMap = [(''name'', 1)], Regexp = noMatcher\<rparr> ''bar'' = Inr ([], None)
   \<and> FindStringIndexNamed \<lparr>namedMap = [(''name'', 1)], Regexp = noMatcher\<rparr> ''bar''
       = Inr (None, None)
   \<and> FindStringNamed
        \<lparr>namedMap = [(''name'', 1)],
         Regexp = noMatcher\<lparr>FindStringSubmatch := (\<lambda>s. Some [[], []])\<rparr>\<rparr> ''bar''
       = Inr ([], Some [(''name'', [])])
   \<and> Some [(''name'', ([]::string))] \<noteq> None"
proof -
  have "FindStringNamed
        \<lparr>namedMap = [(''name'', 1)],
         Regexp = noMatcher\<lparr>FindStringSubmatch := (\<lambda>s. Some [[], []])\<rparr>\<rparr> ''bar''
       = Inr ([], Some [(''name'', [])])"
    by (simp add: FindStringNamed_def mapRe_def getResult_def)
  then show ?thesis
    using no_match_gives_nil_map [of "\<lparr>namedMap = [(''name'', 1)], Regexp = noMatcher\<rparr>" "''bar''"]
      no_match_gives_nil_map [of "\<lparr>namedMap = [(''name'', 1)],
         Regexp = noMatcher\<lparr>FindStringSubmatch := (\<lambda>s. Some [[], []])\<rparr>\<rparr>" "''bar''"
         _ _ _ _ "[]" "Some [(''name'', [])]"]
    by (simp add: noMatcher_def)
qed

section \<open>Repeated search\<close>

lemma mapReAll_loop_char:
  "mapReAll_loop zero re ms f rv0 rv = Inr (bases, maps) \<longleftrightarrow>
     (\<exists>bs mps. bases = rv0 @ bs \<and> maps = rv @ mps \<and> length bs = length ms
        \<and> length mps = length ms
        \<and> (\<forall>j < length ms. mapRe zero re (ms ! j) f = Inr (bs ! j, mps ! j)))"
proof (induction ms arbitrary: rv0 rv)
  case Nil
  show ?case by auto
next
  case (Cons m ms)
  show ?case
  proof (cases "mapRe zero re m f")
    case (Inl e)
    then show ?thesis by force
  next
    case (Inr r)
    obtain b mp where r: "r = (b, mp)" by (cases r)
    have step: "mapReAll_loop zero re (m # ms) f rv0 rv
        = mapReAll_loop zero re ms f (rv0 @ [b]) (rv @ [mp])"
      using Inr r by simp
    show ?thesis
    proof
      assume "mapReAll_loop zero re (m # ms) f rv0 rv = Inr (bases, maps)"
      then obtain bs mps where h: "bases = (rv0 @ [b]) @ bs" "maps = (rv @ [mp]) @ mps"
        "length bs = length ms" "length mps = length ms"
        "\<forall>j < length ms. mapRe zero re (ms ! j) f = Inr (bs ! j, mps ! j)"
        using step Cons.IH [of "rv0 @ [b]" "rv @ [mp]"] by auto
      have "\<forall>j < length (m # ms). mapRe zero re ((m # ms) ! j) f = Inr ((b # bs) ! j, (mp # mps) ! j)"
        using h(5) Inr r by (auto simp: nth_Cons split: nat.splits)
      then have "bases = rv0 @ (b # bs) \<and> maps = rv @ (mp # mps) \<and> length (b # bs) = length (m # ms)
          \<and> length (mp # mps) = length (m # ms)
          \<and> (\<forall>j < length (m # ms). mapRe zero re ((m # ms) ! j) f = Inr ((b # bs) ! j, (mp # mps) ! j))"
        using h by simp
      then show "\<exists>bs mps. bases = rv0 @ bs \<and> maps = rv @ mps \<and> length bs = length (m # ms)
        \<and> length mps = length (m # ms)
        \<and> (\<forall>j < length (m # ms). mapRe zero re ((m # ms) ! j) f = Inr (bs ! j, mps ! j))"
        by blast
    next
      assume "\<exists>bs mps. bases = rv0 @ bs \<and> maps = rv @ mps \<and> length bs = length (m # ms)
        \<and> length mps = length (m # ms)
        \<and> (\<forall>j < length (m # ms). mapRe zero re ((m # ms) ! j) f = Inr (bs ! j, mps ! j))"
      then obtain bs mps where h: "bases = rv0 @ bs" "maps = rv @ mps"
        "length bs = length (m # ms)" "length mps = length (m # ms)"
        "\<forall>j < length (m # ms). mapRe zero re ((m # ms) ! j) f = Inr (bs ! j, mps ! j)"
        by blast
      obtain b' bs' where bs: "bs = b' # bs'" using h(3) by (cases bs) auto
      obtain mp' mps' where mps: "mps = mp' # mps'" using h(4) by (cases mps) auto
      have "mapRe zero re m f = Inr (b', mp')" using h(5) bs mps by auto
      then have eq: "b' = b" "mp' = mp" using Inr r by auto
      have "\<forall>j < length ms. mapRe zero re (ms ! j) f = Inr (bs' ! j, mps' ! j)"
        using h(5) bs mps by auto
      then have "\<exists>bs mps. bases = (rv0 @ [b]) @ bs \<and> maps = (rv @ [mp]) @ mps
          \<and> length bs = length ms \<and> length mps = length ms
          \<and> (\<forall>j < length ms. mapRe zero re (ms ! j) f = Inr (bs ! j, mps ! j))"
        using h bs mps eq by auto
      then show "mapReAll_loop zero re (m # ms) f rv0 rv = Inr (bases, maps)"
        using step Cons.IH [of "rv0 @ [b]" "rv @ [mp]"] by simp
    qed
  qed
qed

lemma mapReAll_char:
  "mapReAll zero re ms f = Inr (bases, maps) \<longleftrightarrow>
     length bases = length ms \<and> length maps = length ms
     \<and> (\<forall>j < length ms. mapRe zero re (ms ! j) f = Inr (bases ! j, maps ! j))"
  by (simp add: mapReAll_def mapReAll_loop_char)

lemma mapReAll_total:
  "(\<exists>r. mapReAll zero re ms f = Inr r) \<longleftrightarrow> (\<forall>j < length ms. \<exists>r. mapRe zero re (ms ! j) f = Inr r)"
proof
  assume "\<exists>r. mapReAll zero re ms f = Inr r"
  then obtain bases maps where "mapReAll zero re ms f = Inr (bases, maps)" by auto
  then show "\<forall>j < length ms. \<exists>r. mapRe zero re (ms ! j) f = Inr r"
    by (auto simp: mapReAll_char)
next
  assume a: "\<forall>j < length ms. \<exists>r. mapRe zero re (ms ! j) f = Inr r"
  define rs where "rs = map (\<lambda>m. projr (mapRe zero re m f)) ms"
  have "\<forall>j < length ms. mapRe zero re (ms ! j) f = Inr (map fst rs ! j, map snd rs ! j)"
    using a by (auto simp: rs_def)
  then have "mapReAll zero re ms f = Inr (map fst rs, map snd rs)"
    by (simp add: mapReAll_char rs_def)
  then show "\<exists>r. mapReAll zero re ms f = Inr r" by blast
qed

lemma example_optional_scan:
  "parseBytes (''(?P<name>'' @ bslash # ''w+)? (?P<age>'' @ bslash # ''d+)'') = Inr [''name'', ''age'']"
  by (simp add: parseBytes_steps)

lemma example_name_age_table: "buildMap [''name'', ''age''] = Inr [(''name'', 1), (''age'', 2)]"
  by (simp add: buildMap_entries UnnamedCapture_def)

text \<open>
  C9. A \<open>FindAll\<close> operation returns a sequence of bases and a sequence of maps, each
  as long as the sequence of raw matches, and the pair at position \<open>j\<close> is what the
  single-result projection \<open>mapRe\<close> gives on the raw match at position \<open>j\<close>: it
  returns those sequences exactly when every one of these projections returns. For the
  pattern with the optional group \<open>name\<close>, whose table is \<open>name\<close> at 1 and
  \<open>age\<close> at 2, and the two raw matches of the subject \<open>foo 42 43\<close>, the second
  map has \<open>name\<close> with the empty string.
\<close>

theorem FindAll_projects_each_match:
  "(mapReAll zero re matches f = Inr (bases, maps) \<longleftrightarrow>
      length bases = length matches \<and> length maps = length matches
      \<and> (\<forall>j < length matches. mapRe zero re (matches ! j) f = Inr (bases ! j, maps ! j)))
   \<and> ((\<exists>r. mapReAll zero re matches f = Inr r) \<longleftrightarrow>
        (\<forall>j < length matches. \<exists>r. mapRe zero re (matches ! j) f = Inr r))
   \<and> (FindAllNamed re s n = Inr (bases1, maps1) \<longleftrightarrow>
        length bases1 = length (FindAllSubmatch (Regexp re) s n)
        \<and> length maps1 = length (FindAllSubmatch (Regexp re) s n)
        \<and> (\<forall>j < length (FindAllSubmatch (Regexp re) s n).
              mapRe None re (FindAllSubmatch (Regexp re) s n ! j) getResult
                = Inr (bases1 ! j, maps1 ! j)))
   \<and> (FindAllIndexNamed re s n = Inr (bases2, maps2) \<longleftrightarrow>
        length bases2 = length (FindAllSubmatchIndex (Regexp re) s n)
        \<and> length maps2 = length (FindAllSubmatchIndex (Regexp re) s n)
        \<and> (\<forall>j < length (FindAllSubmatchIndex (Regexp re) s n).
              mapRe None re (FindAllSubmatchIndex (Regexp re) s n ! j) getResultIndex
                = Inr (bases2 ! j, maps2 ! j)))
   \<and> (FindAllStringNamed re s n = Inr (bases3, maps3) \<longleftrightarrow>
        length bases3 = length (FindAllStringSubmatch (Regexp re) s n)
        \<and> length maps3 = length (FindAllStringSubmatch (Regexp re) s n)
        \<and> (\<forall>j < length (FindAllStringSubmatch (Regexp re) s n).
              mapRe [] re (FindAllStringSubmatch (Regexp re) s n ! j) getResult
                = Inr (bases3 ! j, maps3 ! j)))
   \<and> (FindAllStringIndexNamed re s n = Inr (bases4, maps4) \<longleftrightarrow>
        length bases4 = length (FindAllStringSubmatchIndex (Regexp re) s n)
        \<and> length maps4 = length (FindAllStringSubmatchIndex (Regexp re) s n)
        \<and> (\<forall>j < length (FindAllStringSubmatchIndex (Regexp re) s n).
              mapRe None re (FindAllStringSubmatchIndex (Regexp re) s n ! j) getResultIndex
                = Inr (bases4 ! j, maps4 ! j)))
   \<and> Compile regexp_Compile (''(?P<name>'' @ bslash # ''w+)? (?P<age>'' @ bslash # ''d+)'') =
       (case regexp_Compile (''(?P<name>'' @ bslash # ''w+)? (?P<age>'' @ bslash # ''d+)'') of
          Inl err \<Rightarrow> Inl err
        | Inr compiledRe \<Rightarrow> Inr \<lparr>namedMap = [(''name'', 1), (''age'', 2)], Regexp = compiledRe\<rparr>)
   \<and> (FindAllStringSubmatch c ''foo 42 43'' (- 1)
          = [Some [''foo 42'', ''foo'', ''42''], Some ['' 43'', [], ''43'']]
        \<longrightarrow> FindAllStringNamed \<lparr>namedMap = [(''name'', 1), (''age'', 2)], Regexp = c\<rparr>
              ''foo 42 43'' (- 1)
            = Inr ([''foo 42'', '' 43''],
                   [Some [(''name'', ''foo''), (''age'', ''42'')],
                    Some [(''name'', []), (''age'', ''43'')]]))"
proof (intro conjI)
  show "Compile regexp_Compile (''(?P<name>'' @ bslash # ''w+)? (?P<age>'' @ bslash # ''d+)'') =
       (case regexp_Compile (''(?P<name>'' @ bslash # ''w+)? (?P<age>'' @ bslash # ''d+)'') of
          Inl err \<Rightarrow> Inl err
        | Inr compiledRe \<Rightarrow> Inr \<lparr>namedMap = [(''name'', 1), (''age'', 2)], Regexp = compiledRe\<rparr>)"
    unfolding Compile_def example_optional_scan
    by (simp add: example_name_age_table split: sum.splits)
  show "FindAllStringSubmatch c ''foo 42 43'' (- 1)
          = [Some [''foo 42'', ''foo'', ''42''], Some ['' 43'', [], ''43'']]
        \<longrightarrow> FindAllStringNamed \<lparr>namedMap = [(''name'', 1), (''age'', 2)], Regexp = c\<rparr>
              ''foo 42 43'' (- 1)
            = Inr ([''foo 42'', '' 43''],
                   [Some [(''name'', ''foo''), (''age'', ''42'')],
                    Some [(''name'', []), (''age'', ''43'')]])"
    by (simp add: FindAllStringNamed_def mapReAll_def mapRe_def getResult_def)
qed (simp_all only: mapReAll_char mapReAll_total FindAllNamed_def FindAllIndexNamed_def
       FindAllStringNamed_def FindAllStringIndexNamed_def)

text \<open>The example, with a matcher that returns the two raw matches.\<close>

theorem FindAll_projects_each_match_witness:
  "FindAllStringNamed
      \<lparr>namedMap = [(''name'', 1), (''age'', 2)],
       Regexp = noMatcher\<lparr>FindAllStringSubmatch :=
         (\<lambda>s n. [Some [''foo 42'', ''foo'', ''42''], Some ['' 43'', [], ''43'']])\<rparr>\<rparr>
      ''foo 42 43'' (- 1)
     = Inr ([''foo 42'', '' 43''],
            [Some [(''name'', ''foo''), (''age'', ''42'')],
             Some [(''name'', []), (''age'', ''43'')]])
   \<and> length [''foo 42'', '' 43'']
       = length [Some [''foo 42'', ''foo'', ''42''], Some ['' 43'', [], ''43'']]
   \<and> mapRe [] \<lparr>namedMap = [(''name'', 1), (''age'', 2)], Regexp = noMatcher\<rparr>
         (Some ['' 43'', [], ''43'']) getResult
       = Inr ('' 43'', Some [(''name'', []), (''age'', ''43'')])"
proof -
  let ?c = "noMatcher\<lparr>FindAllStringSubmatch :=
         (\<lambda>s n. [Some [''foo 42'', ''foo'', ''42''], Some ['' 43'', [], ''43'']])\<rparr>"
  have "mapRe [] \<lparr>namedMap = [(''name'', 1), (''age'', 2)], Regexp = noMatcher\<rparr>
         (Some ['' 43'', [], ''43'']) getResult
       = Inr ('' 43'', Some [(''name'', []), (''age'', ''43'')])"
    by (simp add: mapRe_def getResult_def)
  then show ?thesis
    using FindAll_projects_each_match [where c = ?c
        and re = "\<lparr>namedMap = [(''name'', 1), (''age'', 2)], Regexp = noMatcher\<rparr>"
        and zero = "[]" and f = getResult
        and matches = "[Some [''foo 42'', ''foo'', ''42''], Some ['' 43'', [], ''43'']]"
        and bases = "[''foo 42'', '' 43'']"
        and maps = "[Some [(''name'', ''foo''), (''age'', ''42'')],
             Some [(''name'', []), (''age'', ''43'')]]"]
    by simp
qed

section \<open>Projection of one match\<close>

lemma mapRe_loop_ok:
  assumes "distinct (map fst t)" "\<forall>(k, v) \<in> set t. map_of rv k = None"
    "\<forall>(k, v) \<in> set t. f sub v = Inr (g v)"
  shows "mapRe_loop t sub f rv = Inr (rv @ map (\<lambda>(k, v). (k, g v)) t)"
  using assms
proof (induction t arbitrary: rv)
  case Nil
  show ?case by simp
next
  case (Cons kv t)
  obtain k v where kv: "kv = (k, v)" by (cases kv)
  have none: "map_of rv k = None" and ok: "f sub v = Inr (g v)"
    using Cons.prems kv by auto
  have "\<forall>(k', v') \<in> set t. map_of (rv @ [(k, g v)]) k' = None"
    using Cons.prems kv by (auto simp: map_add_def rev_image_eqI split: option.splits)
  then have "mapRe_loop t sub f (rv @ [(k, g v)])
      = Inr ((rv @ [(k, g v)]) @ map (\<lambda>(k, v). (k, g v)) t)"
    using Cons.IH [of "rv @ [(k, g v)]"] Cons.prems by simp
  then show ?case
    using kv none ok by (simp add: update_absent)
qed

lemma map_of_projected:
  "map_of (map (\<lambda>(k, v). (k, g v)) t) k = map_option g (map_of t k)"
  by (induction t) auto

lemma compiled_table_distinct:
  assumes "Compile regexp_Compile p = Inr re"
  shows "distinct (map fst (namedMap re))"
proof -
  obtain parsed where "buildMap parsed = Inr (namedMap re)"
    using assms by (auto simp: Compile_def split: sum.splits)
  then have "namedMap re = entries 0 parsed"
      "distinct (filter (\<lambda>n. n \<noteq> UnnamedCapture) parsed)"
    by (auto simp: buildMap_entries split: if_splits)
  then show ?thesis by (simp add: map_fst_entries)
qed

lemma mapRe_getResult:
  assumes "distinct (map fst (namedMap re))" "sub \<noteq> []"
    "\<forall>k i. map_of (namedMap re) k = Some i \<longrightarrow> i < length sub"
  shows "\<exists>rv. mapRe zero re (Some sub) getResult = Inr (sub ! 0, Some rv)
     \<and> (\<forall>k. map_of rv k = map_option (\<lambda>i. sub ! i) (map_of (namedMap re) k))"
proof -
  have "\<forall>(k, v) \<in> set (namedMap re). getResult sub v = Inr (sub ! v)"
    using assms by (auto simp: getResult_def)
  then have "mapRe_loop (namedMap re) sub getResult []
      = Inr ([] @ map (\<lambda>(k, v). (k, sub ! v)) (namedMap re))"
    using assms(1) by (intro mapRe_loop_ok) auto
  then have "mapRe zero re (Some sub) getResult
      = Inr (sub ! 0, Some (map (\<lambda>(k, v). (k, sub ! v)) (namedMap re)))"
    using assms(2) by (simp add: mapRe_def getResult_def)
  then show ?thesis by (simp add: map_of_projected)
qed

lemma mapRe_getResultIndex:
  assumes "distinct (map fst (namedMap re))" "2 \<le> length sub"
    "\<forall>k i. map_of (namedMap re) k = Some i \<longrightarrow> 2 * i + 2 \<le> length sub"
  shows "\<exists>rv. mapRe zero re (Some sub) getResultIndex = Inr (Some [sub ! 0, sub ! 1], Some rv)
     \<and> (\<forall>k. map_of rv k
            = map_option (\<lambda>i. Some [sub ! (2 * i), sub ! (2 * i + 1)]) (map_of (namedMap re) k))"
proof -
  have pair: "getResultIndex sub i = Inr (Some [sub ! (2 * i), sub ! (2 * i + 1)])"
    if "2 * i + 2 \<le> length sub" for i
  proof -
    have "take 2 (drop (i * 2) sub) = [sub ! (2 * i), sub ! (2 * i + 1)]"
      using that by (simp add: list_eq_iff_nth_eq nth_Cons mult.commute split: nat.splits)
    then show ?thesis using that by (simp add: getResultIndex_def sliceRange_def)
  qed
  have "\<forall>(k, v) \<in> set (namedMap re). getResultIndex sub v = Inr (Some [sub ! (2 * v), sub ! (2 * v + 1)])"
    using assms pair by auto
  then have "mapRe_loop (namedMap re) sub getResultIndex []
      = Inr ([] @ map (\<lambda>(k, v). (k, Some [sub ! (2 * v), sub ! (2 * v + 1)])) (namedMap re))"
    using assms(1) by (intro mapRe_loop_ok) auto
  moreover have "getResultIndex sub 0 = Inr (Some [sub ! 0, sub ! 1])"
    using pair [of 0] assms(2) by simp
  ultimately have "mapRe zero re (Some sub) getResultIndex
      = Inr (Some [sub ! 0, sub ! 1],
             Some (map (\<lambda>(k, v). (k, Some [sub ! (2 * v), sub ! (2 * v + 1)])) (namedMap re)))"
    by (simp add: mapRe_def)
  then show ?thesis by (simp add: map_of_projected)
qed


lemma example_name_age_scan:
  "parseBytes (''(?P<name>'' @ bslash # ''w+) (?P<age>'' @ bslash # ''d+)'') = Inr [''name'', ''age'']"
  by (simp add: parseBytes_steps)

text \<open>
  C8. Let the named pattern come from \<open>Compile\<close>, and let the raw match have an
  element for every index of the table (a pair of offsets in the index-pair form). Then
  the base is the whole match, element 0 of the raw match (its first two offsets in the
  index-pair form), and the map gives to each name of the table, with index \<open>i\<close>,
  element \<open>i\<close> of the raw match as it is, whatever the matcher put there for a group
  that took no part; in the index-pair form it gives the two offsets at \<open>2i\<close> and
  \<open>2i + 1\<close>. The map has no other names. For the pattern with the groups \<open>name\<close>
  and \<open>age\<close> and the raw match of \<open>foo 42\<close>, the result is the base
  \<open>foo 42\<close> with \<open>name\<close> at \<open>foo\<close> and \<open>age\<close> at \<open>42\<close>.
\<close>

theorem projection_maps_names_to_groups:
  "(Compile regexp_Compile p = Inr re \<and> FindSubmatch (Regexp re) s = Some sub1 \<and> sub1 \<noteq> []
      \<and> (\<forall>k i. map_of (namedMap re) k = Some i \<longrightarrow> i < length sub1)
     \<longrightarrow> (\<exists>rv. FindNamed re s = Inr (sub1 ! 0, Some rv)
            \<and> (\<forall>k. map_of rv k = map_option (\<lambda>i. sub1 ! i) (map_of (namedMap re) k))))
   \<and> (Compile regexp_Compile p = Inr re \<and> FindStringSubmatch (Regexp re) s = Some sub2
      \<and> sub2 \<noteq> [] \<and> (\<forall>k i. map_of (namedMap re) k = Some i \<longrightarrow> i < length sub2)
     \<longrightarrow> (\<exists>rv. FindStringNamed re s = Inr (sub2 ! 0, Some rv)
            \<and> (\<forall>k. map_of rv k = map_option (\<lambda>i. sub2 ! i) (map_of (namedMap re) k))))
   \<and> (Compile regexp_Compile p = Inr re \<and> FindSubmatchIndex (Regexp re) s = Some sub3
      \<and> 2 \<le> length sub3
      \<and> (\<forall>k i. map_of (namedMap re) k = Some i \<longrightarrow> 2 * i + 2 \<le> length sub3)
     \<longrightarrow> (\<exists>rv. FindIndexNamed re s = Inr (Some [sub3 ! 0, sub3 ! 1], Some rv)
            \<and> (\<forall>k. map_of rv k
                  = map_option (\<lambda>i. Some [sub3 ! (2 * i), sub3 ! (2 * i + 1)])
                      (map_of (namedMap re) k))))
   \<and> (Compile regexp_Compile p = Inr re \<and> FindStringSubmatchIndex (Regexp re) s = Some sub4
      \<and> 2 \<le> length sub4
      \<and> (\<forall>k i. map_of (namedMap re) k = Some i \<longrightarrow> 2 * i + 2 \<le> length sub4)
     \<longrightarrow> (\<exists>rv. FindStringIndexNamed re s = Inr (Some [sub4 ! 0, sub4 ! 1], Some rv)
            \<and> (\<forall>k. map_of rv k
                  = map_option (\<lambda>i. Some [sub4 ! (2 * i), sub4 ! (2 * i + 1)])
                      (map_of (namedMap re) k))))
   \<and> (Compile regexp_Compile (''(?P<name>'' @ bslash # ''w+) (?P<age>'' @ bslash # ''d+)'')
        = Inr re'
      \<and> FindStringSubmatch (Regexp re') ''foo 42'' = Some [''foo 42'', ''foo'', ''42'']
     \<longrightarrow> FindStringNamed re' ''foo 42''
          = Inr (''foo 42'', Some [(''name'', ''foo''), (''age'', ''42'')]))"
proof (intro conjI impI)
  assume a: "Compile regexp_Compile (''(?P<name>'' @ bslash # ''w+) (?P<age>'' @ bslash # ''d+)'')
        = Inr re'
      \<and> FindStringSubmatch (Regexp re') ''foo 42'' = Some [''foo 42'', ''foo'', ''42'']"
  then have "namedMap re' = [(''name'', 1), (''age'', 2)]"
    unfolding Compile_def example_name_age_scan
    by (auto simp: buildMap_entries UnnamedCapture_def split: sum.splits)
  then show "FindStringNamed re' ''foo 42''
          = Inr (''foo 42'', Some [(''name'', ''foo''), (''age'', ''42'')])"
    using a by (simp add: FindStringNamed_def mapRe_def getResult_def)
next
  assume a: "Compile regexp_Compile p = Inr re \<and> FindSubmatch (Regexp re) s = Some sub1
      \<and> sub1 \<noteq> [] \<and> (\<forall>k i. map_of (namedMap re) k = Some i \<longrightarrow> i < length sub1)"
  then have "distinct (map fst (namedMap re))" by (blast intro: compiled_table_distinct)
  then show "\<exists>rv. FindNamed re s = Inr (sub1 ! 0, Some rv)
            \<and> (\<forall>k. map_of rv k = map_option (\<lambda>i. sub1 ! i) (map_of (namedMap re) k))"
    using a mapRe_getResult [of re sub1 None] by (simp add: FindNamed_def)
next
  assume a: "Compile regexp_Compile p = Inr re \<and> FindStringSubmatch (Regexp re) s = Some sub2
      \<and> sub2 \<noteq> [] \<and> (\<forall>k i. map_of (namedMap re) k = Some i \<longrightarrow> i < length sub2)"
  then have "distinct (map fst (namedMap re))" by (blast intro: compiled_table_distinct)
  then show "\<exists>rv. FindStringNamed re s = Inr (sub2 ! 0, Some rv)
            \<and> (\<forall>k. map_of rv k = map_option (\<lambda>i. sub2 ! i) (map_of (namedMap re) k))"
    using a mapRe_getResult [of re sub2 "[]"] by (simp add: FindStringNamed_def)
next
  assume a: "Compile regexp_Compile p = Inr re \<and> FindSubmatchIndex (Regexp re) s = Some sub3
      \<and> 2 \<le> length sub3
      \<and> (\<forall>k i. map_of (namedMap re) k = Some i \<longrightarrow> 2 * i + 2 \<le> length sub3)"
  then have "distinct (map fst (namedMap re))" by (blast intro: compiled_table_distinct)
  then show "\<exists>rv. FindIndexNamed re s = Inr (Some [sub3 ! 0, sub3 ! 1], Some rv)
            \<and> (\<forall>k. map_of rv k
                  = map_option (\<lambda>i. Some [sub3 ! (2 * i), sub3 ! (2 * i + 1)])
                      (map_of (namedMap re) k))"
    using a mapRe_getResultIndex [of re sub3 None] by (simp add: FindIndexNamed_def)
next
  assume a: "Compile regexp_Compile p = Inr re \<and> FindStringSubmatchIndex (Regexp re) s = Some sub4
      \<and> 2 \<le> length sub4
      \<and> (\<forall>k i. map_of (namedMap re) k = Some i \<longrightarrow> 2 * i + 2 \<le> length sub4)"
  then have "distinct (map fst (namedMap re))" by (blast intro: compiled_table_distinct)
  then show "\<exists>rv. FindStringIndexNamed re s = Inr (Some [sub4 ! 0, sub4 ! 1], Some rv)
            \<and> (\<forall>k. map_of rv k
                  = map_option (\<lambda>i. Some [sub4 ! (2 * i), sub4 ! (2 * i + 1)])
                      (map_of (namedMap re) k))"
    using a mapRe_getResultIndex [of re sub4 None] by (simp add: FindStringIndexNamed_def)
qed

text \<open>
  The example in value form, and in index-pair form a match in which the group
  \<open>name\<close> took no part and has the offsets \<open>-1, -1\<close>.
\<close>

theorem projection_maps_names_to_groups_witness:
  "FindStringNamed
      \<lparr>namedMap = [(''name'', 1), (''age'', 2)],
       Regexp = noMatcher\<lparr>FindStringSubmatch := (\<lambda>s. Some [''foo 42'', ''foo'', ''42''])\<rparr>\<rparr>
      ''foo 42''
     = Inr (''foo 42'', Some [(''name'', ''foo''), (''age'', ''42'')])
   \<and> (\<exists>rv. FindStringIndexNamed
          \<lparr>namedMap = [(''name'', 1), (''age'', 2)],
           Regexp = noMatcher\<lparr>FindStringSubmatchIndex := (\<lambda>s. Some [6, 9, - 1, - 1, 7, 9])\<rparr>\<rparr>
          ''foo 42 43''
        = Inr (Some [6, 9], Some rv)
        \<and> map_of rv ''name'' = Some (Some [- 1, - 1]) \<and> map_of rv ''age'' = Some (Some [7, 9]))"
proof -
  let ?p = "''(?P<name>'' @ bslash # ''w+) (?P<age>'' @ bslash # ''d+)''"
  let ?c1 = "noMatcher\<lparr>FindStringSubmatch := (\<lambda>s. Some [''foo 42'', ''foo'', ''42''])\<rparr>"
  let ?c2 = "noMatcher\<lparr>FindStringSubmatchIndex := (\<lambda>s. Some [6, 9, - 1, - 1, 7, 9])\<rparr>"
  have c: "Compile (\<lambda>p. Inr c) ?p = Inr \<lparr>namedMap = [(''name'', 1), (''age'', 2)], Regexp = c\<rparr>"
    for c
    unfolding Compile_def example_name_age_scan
    by (simp add: buildMap_entries UnnamedCapture_def)
  have 1: "FindStringNamed \<lparr>namedMap = [(''name'', 1), (''age'', 2)], Regexp = ?c1\<rparr> ''foo 42''
     = Inr (''foo 42'', Some [(''name'', ''foo''), (''age'', ''42'')])"
    using projection_maps_names_to_groups [where regexp_Compile = "\<lambda>p. Inr ?c1"
        and re' = "\<lparr>namedMap = [(''name'', 1), (''age'', 2)], Regexp = ?c1\<rparr>"] c [of ?c1]
    by simp
  let ?re2 = "\<lparr>namedMap = [(''name'', 1), (''age'', 2)], Regexp = ?c2\<rparr>"
  let ?sub = "[6, 9, - 1, - 1, 7, 9] :: int list"
  have bound: "\<forall>k i. map_of (namedMap ?re2) k = Some i \<longrightarrow> 2 * i + 2 \<le> length ?sub"
    by (auto split: if_splits)
  have hyp: "Compile (\<lambda>p. Inr ?c2) ?p = Inr ?re2
      \<and> FindStringSubmatchIndex (Regexp ?re2) ''foo 42 43'' = Some ?sub
      \<and> 2 \<le> length ?sub
      \<and> (\<forall>k i. map_of (namedMap ?re2) k = Some i \<longrightarrow> 2 * i + 2 \<le> length ?sub)"
    using c [of ?c2] bound by simp
  have "\<exists>rv. FindStringIndexNamed ?re2 ''foo 42 43'' = Inr (Some [?sub ! 0, ?sub ! 1], Some rv)
      \<and> (\<forall>k. map_of rv k
            = map_option (\<lambda>i. Some [?sub ! (2 * i), ?sub ! (2 * i + 1)])
                (map_of (namedMap ?re2) k))"
    using projection_maps_names_to_groups [where regexp_Compile = "\<lambda>p. Inr ?c2" and p = ?p
        and re = ?re2 and s = "''foo 42 43''" and ?sub4.0 = ?sub] hyp
    by blast
  then obtain rv where rv: "FindStringIndexNamed ?re2 ''foo 42 43'' = Inr (Some [?sub ! 0, ?sub ! 1], Some rv)"
      "\<forall>k. map_of rv k
            = map_option (\<lambda>i. Some [?sub ! (2 * i), ?sub ! (2 * i + 1)])
                (map_of (namedMap ?re2) k)"
    by blast
  have "map_of rv ''name'' = Some (Some [- 1, - 1])" "map_of rv ''age'' = Some (Some [7, 9])"
    using rv(2) by (simp_all add: numeral_2_eq_2 numeral_3_eq_3 nth_Cons)
  then have 2: "\<exists>rv. FindStringIndexNamed ?re2 ''foo 42 43'' = Inr (Some [6, 9], Some rv)
        \<and> map_of rv ''name'' = Some (Some [- 1, - 1]) \<and> map_of rv ''age'' = Some (Some [7, 9])"
    using rv(1) by auto
  show ?thesis using 1 2 by blast
qed

section \<open>The escape marker\<close>

text \<open>
  A backslash appended to a pattern does not change how the bytes before it are read:
  it is no continuation byte, no closing angle bracket and no newline, and it cannot
  complete one of the two markers.
\<close>

lemma list_shape4:
  obtains (0) "p = []" | (1) c0 where "p = [c0]" | (2) c0 c1 where "p = [c0, c1]"
    | (3) c0 c1 c2 where "p = [c0, c1, c2]"
    | (4) c0 c1 c2 c3 rest where "p = c0 # c1 # c2 # c3 # rest"
proof (cases p)
  case Nil
  then show ?thesis by (rule 0)
next
  case (Cons c0 p1)
  show ?thesis
  proof (cases p1)
    case Nil
    then show ?thesis using Cons 1 by simp
  next
    case (Cons c1 p2)
    note p1 = Cons
    show ?thesis
    proof (cases p2)
      case Nil
      then show ?thesis using \<open>p = c0 # p1\<close> p1 2 by simp
    next
      case (Cons c2 p3)
      show ?thesis
      proof (cases p3)
        case Nil
        then show ?thesis using \<open>p = c0 # p1\<close> p1 Cons 3 by simp
      next
        case (Cons c3 rest)
        then show ?thesis using \<open>p = c0 # p1\<close> p1 \<open>p2 = c2 # p3\<close> 4 by simp
      qed
    qed
  qed
qed

lemma DecodeRune_size_le: "snd (DecodeRune p) \<le> length p"
  by (cases p rule: list_shape4) (simp_all add: DecodeRune_def Let_def)

lemma DecodeRune_append_bslash:
  assumes "p \<noteq> []"
  shows "DecodeRune (p @ [bslash]) = DecodeRune p"
  using assms
  by (cases p rule: list_shape4) (simp_all add: DecodeRune_def Let_def)

lemma nameEnd_append_bslash: "nameEnd (cs @ [bslash]) i = nameEnd cs i"
  by (induction cs arbitrary: i) auto

lemma nameEnd_bounds: "nameEnd cs i = Some e \<Longrightarrow> i \<le> e \<and> e < i + length cs"
  by (induction cs arbitrary: i) (fastforce split: if_splits)+

lemma reNamedMatch_append_bslash: "reNamedMatch (input @ [bslash]) = reNamedMatch input"
proof (cases "3 \<le> length input")
  case True
  then show ?thesis by (simp add: reNamedMatch_def nameEnd_append_bslash)
next
  case False
  have "take 3 input \<noteq> ''?P<''" 
  proof
    assume "take 3 input = ''?P<''"
    then have "length (take 3 input) = 3" by simp
    then show False using False by simp
  qed
  moreover have "take 3 (input @ [bslash]) \<noteq> ''?P<''"
  proof
    assume a: "take 3 (input @ [bslash]) = ''?P<''"
    have "take 3 (input @ [bslash]) = input @ [bslash]" using False by simp
    then have "last (input @ [bslash]) = last ''?P<''" using a by simp
    then show False by simp
  qed
  ultimately show ?thesis by (simp add: reNamedMatch_def)
qed

lemma reNoCaptureMatch_append_bslash:
  "reNoCaptureMatch (input @ [bslash]) = reNoCaptureMatch input"
proof (cases "2 \<le> length input")
  case True
  then show ?thesis by (simp add: reNoCaptureMatch_def)
next
  case False
  have "take 2 input \<noteq> ''?:''" 
  proof
    assume "take 2 input = ''?:''"
    then have "length (take 2 input) = 2" by simp
    then show False using False by simp
  qed
  moreover have "take 2 (input @ [bslash]) \<noteq> ''?:''"
  proof
    assume a: "take 2 (input @ [bslash]) = ''?:''"
    have "take 2 (input @ [bslash]) = input @ [bslash]" using False by simp
    then have "last (input @ [bslash]) = last ''?:''" using a by simp
    then show False by simp
  qed
  ultimately show ?thesis by (simp add: reNoCaptureMatch_def)
qed

lemma groupOpen_append_bslash:
  assumes "groupOpen input = Inr (g, input')"
  shows "groupOpen (input @ [bslash]) = Inr (g, input' @ [bslash])"
proof (cases "reNamedMatch input")
  case (Some m)
  then obtain e where e: "take 3 input = ''?P<''" "nameEnd (drop 3 input) 3 = Some e"
      "m = [0, e + 1, 3, e]"
    by (auto simp: reNamedMatch_def split: if_splits option.splits)
  have b: "3 \<le> e" "e < length input"
    using nameEnd_bounds [OF e(2)] e(1) by (auto simp: )
  show ?thesis
    using assms Some e(3) b
    by (auto simp: groupOpen_def reNamedMatch_append_bslash sliceRange_def sliceFrom_def
          split: if_splits)
next
  case None
  show ?thesis
  proof (cases "reNoCaptureMatch input")
    case (Some m)
    then have m: "m = [0, 2]" by (auto simp: reNoCaptureMatch_def split: if_splits)
    show ?thesis
      using assms None Some m
      by (auto simp: groupOpen_def reNamedMatch_append_bslash reNoCaptureMatch_append_bslash
            sliceFrom_def split: if_splits)
  next
    case None': None
    show ?thesis
      using assms None None'
      by (auto simp: groupOpen_def reNamedMatch_append_bslash reNoCaptureMatch_append_bslash)
  qed
qed


lemma parseBytes_unfold_esc:
  assumes "input \<noteq> []" "DecodeRune input = (0x5C, n)"
  shows "parseBytes input =
     (if drop n input = [] then Inl errTrailingBackslash
      else if fst (DecodeRune (drop n input)) \<noteq> RuneError
        then parseBytes (drop (snd (DecodeRune (drop n input))) (drop n input))
        else Inl errIncorrectRune)"
  using assms by (subst parseBytes.simps) (simp add: case_prod_beta)

lemma parseBytes_unfold_open:
  assumes "input \<noteq> []" "DecodeRune input = (0x28, n)"
  shows "parseBytes input =
     (case groupOpen (drop n input) of
        Inl e \<Rightarrow> Inl e
      | Inr (groupName, input2) \<Rightarrow>
          (case parseBytes input2 of
             Inr recursiveResult \<Rightarrow> Inr (groupName @ recursiveResult)
           | Inl err \<Rightarrow> Inl err))"
  using assms by (subst parseBytes.simps) simp

lemma parseBytes_unfold_other:
  assumes "input \<noteq> []" "DecodeRune input = (r, n)" "r \<noteq> 0x5C" "r \<noteq> 0x28"
  shows "parseBytes input = parseBytes (drop n input)"
  using assms by (subst parseBytes.simps) simp

text \<open>
  By induction along the scan: if the scanner accepts a pattern, it reaches the
  backslash appended to it with nothing behind, and fails there.
\<close>

lemma parseBytes_append_bslash:
  "parseBytes input = Inr ds \<Longrightarrow> parseBytes (input @ [bslash]) = Inl errTrailingBackslash"
proof (induction input arbitrary: ds rule: parseBytes.induct)
  case (1 input)
  show ?case
  proof (cases "input = []")
    case True
    then show ?thesis by (simp add: parseBytes_bslash_end)
  next
    case False
    then have len: "length input \<noteq> 0" by simp
    obtain nextrun runlen where d: "DecodeRune input = (nextrun, runlen)"
      by (cases "DecodeRune input")
    have d': "DecodeRune (input @ [bslash]) = (nextrun, runlen)"
      using DecodeRune_append_bslash [OF False] d by simp
    have le: "runlen \<le> length input" using DecodeRune_size_le [of input] d by simp
    define input1 where "input1 = drop runlen input"
    have drop1: "drop runlen (input @ [bslash]) = input1 @ [bslash]"
      using le by (simp add: input1_def)
    have ne': "input @ [bslash] \<noteq> []" by simp
    consider (esc) "nextrun = 0x5C" | (opn) "nextrun \<noteq> 0x5C" "nextrun = 0x28"
      | (other) "nextrun \<noteq> 0x5C" "nextrun \<noteq> 0x28"
      by blast
    then show ?thesis
    proof cases
      case esc
      have unf: "parseBytes input =
         (if input1 = [] then Inl errTrailingBackslash
          else if fst (DecodeRune input1) \<noteq> RuneError
            then parseBytes (drop (snd (DecodeRune input1)) input1)
            else Inl errIncorrectRune)"
        using parseBytes_unfold_esc [OF False, of runlen] d esc by (simp add: input1_def)
      have ne: "input1 \<noteq> []" using "1.prems" unf by (auto split: if_splits)
      obtain nextrun2 runlen2 where d2: "DecodeRune input1 = (nextrun2, runlen2)"
        by (cases "DecodeRune input1")
      have d2': "DecodeRune (input1 @ [bslash]) = (nextrun2, runlen2)"
        using DecodeRune_append_bslash [OF ne] d2 by simp
      have le2: "runlen2 \<le> length input1" using DecodeRune_size_le [of input1] d2 by simp
      have ok: "nextrun2 \<noteq> RuneError" and rec: "parseBytes (drop runlen2 input1) = Inr ds"
        using "1.prems" unf ne d2 by (auto split: if_splits)
      have len1: "length input1 \<noteq> 0" using ne by simp
      have "parseBytes (drop runlen2 input1 @ [bslash]) = Inl errTrailingBackslash"
        using "1.IH"(1) [OF len d [symmetric] input1_def esc len1 d2 [symmetric] ok rec] .
      then show ?thesis
        using parseBytes_unfold_esc [OF ne', of runlen] d' esc drop1 d2' ok le2
        by simp
    next
      case opn
      have unf: "parseBytes input =
         (case groupOpen input1 of
            Inl e \<Rightarrow> Inl e
          | Inr (groupName, input2) \<Rightarrow>
              (case parseBytes input2 of
                 Inr recursiveResult \<Rightarrow> Inr (groupName @ recursiveResult)
               | Inl err \<Rightarrow> Inl err))"
        using parseBytes_unfold_open [OF False, of runlen] d opn by (simp add: input1_def)
      obtain g input2 where go: "groupOpen input1 = Inr (g, input2)"
        using "1.prems" unf by (auto split: sum.splits)
      obtain rec where rec: "parseBytes input2 = Inr rec"
        using "1.prems" unf go by (auto split: sum.splits)
      have "parseBytes (input2 @ [bslash]) = Inl errTrailingBackslash"
        using "1.IH"(2) [OF len d [symmetric] input1_def opn go refl rec] .
      then show ?thesis
        using parseBytes_unfold_open [OF ne', of runlen] d' opn drop1
          groupOpen_append_bslash [OF go]
        by simp
    next
      case other
      have rec: "parseBytes input1 = Inr ds"
        using "1.prems" parseBytes_unfold_other [OF False d other] by (simp add: input1_def)
      have "parseBytes (input1 @ [bslash]) = Inl errTrailingBackslash"
        using "1.IH"(3) [OF len d [symmetric] input1_def other rec] .
      then show ?thesis
        using parseBytes_unfold_other [OF ne' d' other] drop1 by simp
    qed
  qed
qed

text \<open>
  C5, as the code has it. If the scanner accepts a pattern, then on that pattern followed
  by one backslash it fails with the error "trailing backslash at end of expression", and
  so does \<open>Compile\<close> unless the matcher has rejected the pattern before, with its own
  error. Where the scan stands at a backslash followed by an ASCII character, or by the
  valid encoding of any character but U+FFFD, it skips that character and goes on behind
  it: an escaped opening parenthesis gives no descriptor, and an escaped closing
  parenthesis is skipped like any other escaped character.
\<close>

theorem trailing_backslash_and_escapes:
  "(parseBytes p = Inr ds \<longrightarrow>
      parseBytes (p @ [bslash]) = Inl errTrailingBackslash
      \<and> Compile regexp_Compile (p @ [bslash]) =
          (case regexp_Compile (p @ [bslash]) of
             Inl err \<Rightarrow> Inl err
           | Inr compiledRe \<Rightarrow> Inl errTrailingBackslash))
   \<and> ((of_char c :: nat) < 0x80 \<longrightarrow> parseBytes (bslash # c # rest) = parseBytes rest)
   \<and> (cs \<noteq> [] \<and> fst (DecodeRune cs) \<noteq> RuneError \<longrightarrow>
        parseBytes (bslash # cs) = parseBytes (drop (snd (DecodeRune cs)) cs))
   \<and> parseBytes (bslash # CHR ''('' # rest) = parseBytes rest
   \<and> parseBytes (bslash # CHR '')'' # rest) = parseBytes rest
   \<and> parseBytes (''(?P<name>'' @ bslash # ''w+)'' @ [bslash]) = Inl errTrailingBackslash"
proof (intro conjI impI)
  assume a: "parseBytes p = Inr ds"
  then show t: "parseBytes (p @ [bslash]) = Inl errTrailingBackslash"
    by (rule parseBytes_append_bslash)
  show "Compile regexp_Compile (p @ [bslash]) =
          (case regexp_Compile (p @ [bslash]) of
             Inl err \<Rightarrow> Inl err
           | Inr compiledRe \<Rightarrow> Inl errTrailingBackslash)"
    unfolding Compile_def t by (simp split: sum.splits)
next
  assume "(of_char c :: nat) < 0x80"
  then show "parseBytes (bslash # c # rest) = parseBytes rest"
    by (rule parseBytes_bslash_ascii)
next
  assume a: "cs \<noteq> [] \<and> fst (DecodeRune cs) \<noteq> RuneError"
  have "DecodeRune (bslash # cs) = (0x5C, 1)" by (simp add: DecodeRune_ascii)
  then show "parseBytes (bslash # cs) = parseBytes (drop (snd (DecodeRune cs)) cs)"
    using parseBytes_unfold_esc [of "bslash # cs" 1] a by simp
qed (simp_all add: parseBytes_steps)

text \<open>
  The pattern of the group \<open>name\<close>, an escaped parenthesis, and an escaped two-byte
  character.
\<close>

theorem trailing_backslash_and_escapes_witness:
  "parseBytes (''(?P<name>'' @ bslash # ''w+)'') = Inr [''name'']
   \<and> parseBytes ((''(?P<name>'' @ bslash # ''w+)'') @ [bslash]) = Inl errTrailingBackslash
   \<and> parseBytes (bslash # CHR ''('' # ''a'') = Inr []
   \<and> parseBytes (bslash # [CHR 0xC3, CHR 0xA9, CHR ''(''])
       = parseBytes (drop 2 [CHR 0xC3, CHR 0xA9, CHR ''(''])"
proof -
  have 1: "parseBytes (''(?P<name>'' @ bslash # ''w+)'') = Inr [''name'']"
    by (simp add: parseBytes_steps)
  have 2: "DecodeRune [CHR 0xC3, CHR 0xA9, CHR ''(''] = (0xE9, 2)"
    by (simp add: DecodeRune_def)
  have 3: "parseBytes ''a'' = Inr []" by (simp add: parseBytes_steps)
  show ?thesis
    using 1 2 3
      trailing_backslash_and_escapes [where p = "''(?P<name>'' @ bslash # ''w+)''"
        and ds = "[''name'']" and c = "CHR ''(''" and rest = "''a''"
        and cs = "[CHR 0xC3, CHR 0xA9, CHR ''('']"]
    by (simp add: RuneError_def)
qed

text \<open>
  The last character of the pattern of two backslashes is a backslash, and the scanner
  accepts it: the second backslash is the character that the first one escapes.
\<close>

theorem escaped_backslash_at_end_is_accepted:
  "last [bslash, bslash] = bslash \<and> parseBytes [bslash, bslash] = Inr []"
  by (simp add: parseBytes_steps)

text \<open>
  C6, at the input where the code departs from it. The three bytes EF BF BD are the valid
  encoding of U+FFFD: \<open>DecodeRune\<close> reads them as that rune with width 3, where an
  invalid encoding has width 1. The scanner compares the rune alone with
  \<open>RuneError\<close>, so a backslash followed by these bytes gives the error "incorrect rune
  after backslash", as a backslash followed by a truncated sequence does, while a
  backslash followed by another valid two-byte character is accepted. The same error
  comes out of \<open>Compile\<close> for the quoted literal made of a backslash and U+FFFD.
\<close>

theorem escaped_replacement_char_rejected:
  "DecodeRune [CHR 0xEF, CHR 0xBF, CHR 0xBD] = (0xFFFD, 3)
   \<and> parseBytes [bslash, CHR 0xEF, CHR 0xBF, CHR 0xBD] = Inl errIncorrectRune
   \<and> parseBytes [bslash, CHR 0xC3, CHR 0xA9] = Inr []
   \<and> parseBytes [bslash, CHR 0xC3] = Inl errIncorrectRune
   \<and> Compile regexp_Compile ([bslash, CHR ''Q'', bslash, CHR 0xEF, CHR 0xBF, CHR 0xBD, bslash, CHR ''E'']) =
       (case regexp_Compile ([bslash, CHR ''Q'', bslash, CHR 0xEF, CHR 0xBF, CHR 0xBD, bslash, CHR ''E'']) of
          Inl err \<Rightarrow> Inl err
        | Inr compiledRe \<Rightarrow> Inl errIncorrectRune)"
proof -
  have 1: "DecodeRune [CHR 0xEF, CHR 0xBF, CHR 0xBD] = (0xFFFD, 3)"
    by (simp add: DecodeRune_def)
  have 2: "parseBytes (bslash # CHR 0xEF # CHR 0xBF # CHR 0xBD # rest) = Inl errIncorrectRune" for rest
    using parseBytes_unfold_esc [of "bslash # CHR 0xEF # CHR 0xBF # CHR 0xBD # rest" 1]
    by (simp add: DecodeRune_def RuneError_def)
  have 3: "parseBytes [bslash, CHR 0xC3, CHR 0xA9] = Inr []"
    using parseBytes_unfold_esc [of "[bslash, CHR 0xC3, CHR 0xA9]" 1]
    by (simp add: DecodeRune_def RuneError_def parseBytes_Nil)
  have 4: "parseBytes [bslash, CHR 0xC3] = Inl errIncorrectRune"
    using parseBytes_unfold_esc [of "[bslash, CHR 0xC3]" 1]
    by (simp add: DecodeRune_def RuneError_def)
  have 5: "parseBytes ([bslash, CHR ''Q'', bslash, CHR 0xEF, CHR 0xBF, CHR 0xBD, bslash, CHR ''E''])
      = Inl errIncorrectRune"
    using 2 [of "[bslash, CHR ''E'']"] by (simp add: parseBytes_bslash_ascii)
  show ?thesis
    unfolding Compile_def 5 using 1 2 [of "[]"] 3 4 by (simp split: sum.splits)
qed

section \<open>The table and the numbering of groups\<close>

text \<open>
  On the descriptor sequence the table is right: it has one entry for each name, the
  indices are distinct, and the index of a name is its position in the sequence, counted
  from 1.
\<close>

lemma entries_snd_gt: "(n, v) \<in> set (entries i ds) \<Longrightarrow> i < v"
  by (auto simp: entries_nth)

lemma distinct_snd_entries: "distinct (map snd (entries i ds))"
proof (induction ds arbitrary: i)
  case Nil
  show ?case by simp
next
  case (Cons d ds)
  have "i + 1 \<notin> snd ` set (entries (i + 1) ds)"
    using entries_snd_gt [of _ "i + 1" "i + 1" ds] by force
  then show ?case using Cons.IH [of "i + 1"] by simp
qed

lemma buildMap_table:
  assumes "buildMap ds = Inr t"
  shows "length t = length (filter (\<lambda>n. n \<noteq> UnnamedCapture) ds)"
    and "distinct (map fst t)" and "distinct (map snd t)"
    and "map_of t n = Some i \<Longrightarrow>
           1 \<le> i \<and> i \<le> length ds \<and> ds ! (i - 1) = n \<and> n \<noteq> UnnamedCapture"
    and "j < length ds \<Longrightarrow> ds ! j \<noteq> UnnamedCapture \<Longrightarrow> map_of t (ds ! j) = Some (j + 1)"
proof -
  have t: "t = entries 0 ds" and dist: "distinct (filter (\<lambda>n. n \<noteq> UnnamedCapture) ds)"
    using assms by (auto simp: buildMap_entries split: if_splits)
  show "length t = length (filter (\<lambda>n. n \<noteq> UnnamedCapture) ds)"
    using t map_fst_entries [of 0 ds] by (metis length_map)
  show fst: "distinct (map fst t)" using t dist by (simp add: map_fst_entries)
  show "distinct (map snd t)" using t by (simp add: distinct_snd_entries)
  show "1 \<le> i \<and> i \<le> length ds \<and> ds ! (i - 1) = n \<and> n \<noteq> UnnamedCapture"
    if "map_of t n = Some i"
  proof -
    have "(n, i) \<in> set (entries 0 ds)" using that t by (auto dest: map_of_SomeD)
    then show ?thesis by (auto simp: entries_nth)
  qed
  show "map_of t (ds ! j) = Some (j + 1)" if "j < length ds" "ds ! j \<noteq> UnnamedCapture"
  proof -
    have "(ds ! j, j + 1) \<in> set t" using that t by (auto simp: entries_nth)
    then show ?thesis using fst by simp
  qed
qed

text \<open>
  C1, at the input where the code departs from it. After the marker of a group that
  does not capture, the scanner goes on at offset \<open>m[1] + 1 = 3\<close> behind the
  parenthesis, one byte behind the marker. When that byte opens a group, the group is
  lost: the pattern whose only capturing group is the named group \<open>x\<close>, inside a
  non-capturing group, gets an empty table; and in a pattern where the lost group is
  unnamed and \<open>x\<close> is the second capturing group, \<open>x\<close> gets the index 1.
\<close>

theorem noncapture_skip_drops_group:
  "groupOpen ''?:(?P<x>a))'' = Inr ([], ''?P<x>a))'')
   \<and> parseBytes ''(?:(?P<x>a))'' = Inr []
   \<and> Compile regexp_Compile ''(?:(?P<x>a))'' =
       (case regexp_Compile ''(?:(?P<x>a))'' of
          Inl err \<Rightarrow> Inl err
        | Inr compiledRe \<Rightarrow> Inr \<lparr>namedMap = [], Regexp = compiledRe\<rparr>)
   \<and> parseBytes ''(?:(a)|b)(?P<x>c)'' = Inr [''x'']
   \<and> Compile regexp_Compile ''(?:(a)|b)(?P<x>c)'' =
       (case regexp_Compile ''(?:(a)|b)(?P<x>c)'' of
          Inl err \<Rightarrow> Inl err
        | Inr compiledRe \<Rightarrow> Inr \<lparr>namedMap = [(''x'', 1)], Regexp = compiledRe\<rparr>)"
proof -
  have 1: "parseBytes ''(?:(?P<x>a))'' = Inr []" by (simp add: parseBytes_steps)
  have 2: "parseBytes ''(?:(a)|b)(?P<x>c)'' = Inr [''x'']" by (simp add: parseBytes_steps)
  have 3: "groupOpen ''?:(?P<x>a))'' = Inr ([], ''?P<x>a))'')"
    by (simp add: parseBytes_steps)
  show ?thesis
    unfolding Compile_def 1 2 using 3
    by (simp add: buildMap_entries UnnamedCapture_def split: sum.splits)
qed

text \<open>
  A table index beyond the raw match makes the projection panic, whatever the other
  entries of the table are.
\<close>

lemma mapRe_loop_fails:
  assumes "(k, i) \<in> set t" "f sub i = Inl e" "\<forall>(k', i') \<in> set t. \<forall>e'. f sub i' = Inl e' \<longrightarrow> e' = e"
  shows "mapRe_loop t sub f rv = Inl e"
  using assms
proof (induction t arbitrary: rv)
  case Nil
  then show ?case by simp
next
  case (Cons kv t)
  obtain k' i' where kv: "kv = (k', i')" by (cases kv)
  show ?case
  proof (cases "f sub i'")
    case (Inl e')
    then have "e' = e" using Cons.prems(3) kv by auto
    then show ?thesis using Inl kv by simp
  next
    case (Inr x)
    then have "(k, i) \<in> set t" using Cons.prems(1,2) kv by auto
    then have "mapRe_loop t sub f (AList.update k' x rv) = Inl e"
      using Cons.IH [of "AList.update k' x rv"] Cons.prems by auto
    then show ?thesis using Inr kv by simp
  qed
qed

lemma mapRe_getResult_out_of_range:
  assumes "(k, i) \<in> set (namedMap re)" "length sub \<le> i"
  shows "mapRe zero re (Some sub) getResult = Inl panicIndex"
proof -
  have "getResult sub i = Inl panicIndex" using assms(2) by (simp add: getResult_def)
  moreover have "\<forall>(k', i') \<in> set (namedMap re). \<forall>e'. getResult sub i' = Inl e' \<longrightarrow> e' = panicIndex"
    by (auto simp: getResult_def split: if_splits)
  ultimately have "mapRe_loop (namedMap re) sub getResult [] = Inl panicIndex"
    using assms(1) by (intro mapRe_loop_fails [of k i]) auto
  then show ?thesis by (simp add: mapRe_def)
qed

text \<open>
  C2, at the input where the code departs from it. In the pattern of a non-capturing
  group around an escaped parenthesis, followed by the named group \<open>x\<close>, the byte
  skipped behind the marker is the backslash, so the scanner takes the escaped
  parenthesis for a group and gives \<open>x\<close> the index 2. The pattern has one capturing
  group, so a raw match of it has two elements, and the projection panics with an index
  out of range. The scanner also counts a parenthesis inside a character class and the
  parenthesis of a flag group as unnamed groups, with the same effect.
\<close>

theorem projection_index_out_of_range:
  "parseBytes (''(?:'' @ bslash # ''()(?P<x>a)'') = Inr [UnnamedCapture, ''x'']
   \<and> Compile regexp_Compile (''(?:'' @ bslash # ''()(?P<x>a)'') =
       (case regexp_Compile (''(?:'' @ bslash # ''()(?P<x>a)'') of
          Inl err \<Rightarrow> Inl err
        | Inr compiledRe \<Rightarrow> Inr \<lparr>namedMap = [(''x'', 2)], Regexp = compiledRe\<rparr>)
   \<and> mapRe [] \<lparr>namedMap = [(''x'', 2)], Regexp = c\<rparr> (Some [''(a'', ''a'']) getResult
       = Inl panicIndex
   \<and> FindStringNamed
        \<lparr>namedMap = [(''x'', 2)],
         Regexp = noMatcher\<lparr>FindStringSubmatch := (\<lambda>s. Some [''(a'', ''a''])\<rparr>\<rparr> ''(a''
       = Inl panicIndex
   \<and> parseBytes ''[(](?P<x>a)'' = Inr [UnnamedCapture, ''x'']
   \<and> parseBytes ''(?i)(?P<x>a)'' = Inr [UnnamedCapture, ''x'']"
proof -
  have 1: "parseBytes (''(?:'' @ bslash # ''()(?P<x>a)'') = Inr [UnnamedCapture, ''x'']"
    by (simp add: parseBytes_steps)
  have 2: "parseBytes ''[(](?P<x>a)'' = Inr [UnnamedCapture, ''x'']"
    by (simp add: parseBytes_steps)
  have 3: "parseBytes ''(?i)(?P<x>a)'' = Inr [UnnamedCapture, ''x'']"
    by (simp add: parseBytes_steps)
  have 4: "buildMap [UnnamedCapture, ''x''] = Inr [(''x'', 2)]"
    by (simp add: buildMap_entries UnnamedCapture_def)
  show ?thesis
    unfolding Compile_def 1 using 2 3 4
    by (simp add: FindStringNamed_def mapRe_def getResult_def split: sum.splits)
qed

end
